theory Spec2Isabelle
  imports Complex_Main "HOL-Library.AList"
begin

section \<open>The dataset generation pipeline of datadreamer\<close>

text \<open>
  A shallow embedding of \<^verbatim>\<open>datadreamer/pipelines/generate_dataset_from_scratch.py\<close>:
  the argument checks, the two functions that write the annotation files, and \<^verbatim>\<open>main\<close>
  with its loops over image batches. The pretrained model wrappers are imported from
  other modules; they enter as parameters (record \<open>models\<close> below).
\<close>

subsection \<open>Python values, exceptions and library functions\<close>

text \<open>
  The values that can occur as elements of the list-valued arguments: \<^verbatim>\<open>isinstance\<close>
  tells them apart.
\<close>

datatype pyval = PStr string | PInt int | PNone

fun is_str :: "pyval \<Rightarrow> bool" where
  "is_str (PStr s) = True"
| "is_str v = False"

fun is_int :: "pyval \<Rightarrow> bool" where
  "is_int (PInt n) = True"
| "is_int v = False"

text \<open>
  A Python float: a finite value (read as a rational number), an infinity or NaN.
  Every comparison with NaN is false.
\<close>

datatype pyfloat = Finite rat | PosInf | NegInf | NaN

fun int_le_float :: "int \<Rightarrow> pyfloat \<Rightarrow> bool" where
  "int_le_float i (Finite q) = (of_int i \<le> q)"
| "int_le_float i PosInf = True"
| "int_le_float i NegInf = False"
| "int_le_float i NaN = False"

fun float_le_int :: "pyfloat \<Rightarrow> int \<Rightarrow> bool" where
  "float_le_int (Finite q) i = (q \<le> of_int i)"
| "float_le_int PosInf i = False"
| "float_le_int NegInf i = True"
| "float_le_int NaN i = False"

datatype error =
    ValueError string
  | KeyError string
  | IndexError
  | OSError string
  | FileNotFoundError string
  | UnidentifiedImageError string

text \<open>Sequencing of steps that may raise: the first exception ends the computation.\<close>

definition bind_res :: "error + 'a \<Rightarrow> ('a \<Rightarrow> error + 'b) \<Rightarrow> error + 'b" where
  "bind_res m f = (case m of Inl e \<Rightarrow> Inl e | Inr x \<Rightarrow> f x)"

text \<open>A list comprehension or loop whose body may raise: the elements in order.\<close>

fun map_res :: "('a \<Rightarrow> error + 'b) \<Rightarrow> 'a list \<Rightarrow> error + 'b list" where
  "map_res f [] = Inr []"
| "map_res f (x # xs) = bind_res (f x) (\<lambda>y. bind_res (map_res f xs) (\<lambda>ys. Inr (y # ys)))"

text \<open>\<^verbatim>\<open>d[k]\<close> on a dictionary with string keys.\<close>

definition dict_getitem :: "(string \<times> 'v) list \<Rightarrow> string \<Rightarrow> error + 'v" where
  "dict_getitem d k = (case map_of d k of None \<Rightarrow> Inl (KeyError k) | Some v \<Rightarrow> Inr v)"

text \<open>\<^verbatim>\<open>xs[i]\<close>: a negative index counts from the end, an index out of range raises.\<close>

definition py_getitem :: "'a list \<Rightarrow> int \<Rightarrow> error + 'a" where
  "py_getitem xs i =
     (if 0 \<le> i \<and> i < int (length xs) then Inr (xs ! nat i)
      else if i < 0 \<and> - int (length xs) \<le> i then Inr (xs ! nat (int (length xs) + i))
      else Inl IndexError)"

text \<open>\<^verbatim>\<open>xs[i:j]\<close> with step 1: both bounds are wrapped once and clamped to the list.\<close>

definition slice_bound :: "nat \<Rightarrow> int \<Rightarrow> nat" where
  "slice_bound n i = (if i < 0 then nat (max 0 (int n + i)) else min n (nat i))"

definition py_slice :: "'a list \<Rightarrow> int \<Rightarrow> int \<Rightarrow> 'a list" where
  "py_slice xs i j =
     (let lo = slice_bound (length xs) i; hi = slice_bound (length xs) j
      in take (hi - lo) (drop lo xs))"

text \<open>
  \<^verbatim>\<open>range(start, stop, step)\<close> as a list; a zero step raises. The recursion of the
  ascending case stops because the distance to \<open>stop\<close> shrinks.
\<close>

function range_up :: "int \<Rightarrow> int \<Rightarrow> int \<Rightarrow> int list" where
  "range_up i stop step =
     (if 0 < step \<and> i < stop then i # range_up (i + step) stop step else [])"
  by pat_completeness auto
termination
  by (relation "measure (\<lambda>(i, stop, step). nat (stop - i))") auto

declare range_up.simps [simp del]

function range_down :: "int \<Rightarrow> int \<Rightarrow> int \<Rightarrow> int list" where
  "range_down i stop step =
     (if step < 0 \<and> stop < i then i # range_down (i + step) stop step else [])"
  by pat_completeness auto
termination
  by (relation "measure (\<lambda>(i, stop, step). nat (i - stop))") auto

declare range_down.simps [simp del]

definition py_range :: "int \<Rightarrow> int \<Rightarrow> int \<Rightarrow> error + int list" where
  "py_range start stop step =
     (if step = 0 then Inl (ValueError ''range() arg 3 must not be zero'')
      else if 0 < step then Inr (range_up start stop step)
      else Inr (range_down start stop step))"

text \<open>\<^verbatim>\<open>xs.index(x)\<close>: the position of the first occurrence, ValueError if there is none.\<close>

fun py_index :: "'a list \<Rightarrow> 'a \<Rightarrow> error + nat" where
  "py_index [] x = Inl (ValueError ''x not in list'')"
| "py_index (y # ys) x =
     (if y = x then Inr 0 else bind_res (py_index ys x) (\<lambda>k. Inr (Suc k)))"

text \<open>A one-dimensional NumPy array (of scalars, or of rows) and its \<^verbatim>\<open>tolist\<close>.\<close>

datatype 'a ndarray = NdArray "'a list"

fun tolist :: "'a ndarray \<Rightarrow> 'a list" where
  "tolist (NdArray xs) = xs"

definition np_array :: "'a list \<Rightarrow> 'a ndarray" where
  "np_array xs = NdArray xs"

text \<open>\<^verbatim>\<open>numpy.unique\<close> returns the sorted unique elements of its argument.\<close>

definition np_unique :: "nat list \<Rightarrow> nat ndarray" where
  "np_unique xs = NdArray (sort (remdups xs))"

text \<open>\<^verbatim>\<open>zip\<close> of three sequences stops with the shortest.\<close>

definition zip3 :: "'a list \<Rightarrow> 'b list \<Rightarrow> 'c list \<Rightarrow> ('a \<times> 'b \<times> 'c) list" where
  "zip3 xs ys zs = zip xs (zip ys zs)"

text \<open>\<^verbatim>\<open>str(n)\<close> of an integer, as used by the f-strings that build file names.\<close>

definition digit_char :: "nat \<Rightarrow> char" where
  "digit_char d = ''0123456789'' ! d"

fun str_nat :: "nat \<Rightarrow> string" where
  "str_nat n = (if n < 10 then [digit_char n] else str_nat (n div 10) @ [digit_char (n mod 10)])"

declare str_nat.simps [simp del]

definition str_int :: "int \<Rightarrow> string" where
  "str_int i = (if i < 0 then CHR ''-'' # str_nat (nat (- i)) else str_nat (nat i))"

text \<open>
  \<^verbatim>\<open>os.path.join\<close> and \<^verbatim>\<open>os.path.basename\<close> for POSIX paths: an absolute second
  component replaces the first; otherwise one separator is put between the two unless the
  first is empty or ends with one. The base name is what follows the last separator.
\<close>

definition path_join :: "string \<Rightarrow> string \<Rightarrow> string" where
  "path_join a b =
     (if b \<noteq> [] \<and> hd b = CHR ''/'' then b
      else if a = [] \<or> last a = CHR ''/'' then a @ b
      else a @ ''/'' @ b)"

definition basename :: "string \<Rightarrow> string" where
  "basename p = rev (takeWhile (\<lambda>c. c \<noteq> CHR ''/'') (rev p))"

subsection \<open>Parsed arguments\<close>

text \<open>The namespace returned by \<^verbatim>\<open>parse_args\<close>, one field per command-line option.\<close>

record args =
  save_dir :: string
  task :: string
  class_names :: "pyval list"
  prompts_number :: int
  num_objects_range :: "pyval list"
  prompt_generator :: string
  image_generator :: string
  image_annotator :: string
  synonym_generator :: string
  conf_threshold :: pyfloat
  use_tta :: bool
  use_image_tester :: bool
  image_tester_patience :: int
  lm_quantization :: string
  batch_size_prompt :: int
  batch_size_annotation :: int
  batch_size_image :: int
  device :: string
  seed :: int

text \<open>The defaults of \<^verbatim>\<open>parse_args\<close>: the namespace of a run without options.\<close>

definition default_args :: args where
  "default_args =
     \<lparr> save_dir = ''generated_dataset'', task = ''detection'',
       class_names = [PStr ''bear'', PStr ''bicycle'', PStr ''bird'', PStr ''person''],
       prompts_number = 10, num_objects_range = [PInt 1, PInt 3],
       prompt_generator = ''simple'', image_generator = ''sdxl-turbo'',
       image_annotator = ''owlv2'', synonym_generator = ''none'',
       conf_threshold = Finite (3 / 20), use_tta = False, use_image_tester = False,
       image_tester_patience = 1, lm_quantization = ''none'', batch_size_prompt = 64,
       batch_size_annotation = 1, batch_size_image = 1, device = ''cuda'', seed = 42 \<rparr>"

subsection \<open>The environment: CUDA and the file system\<close>

text \<open>
  What the program reads from its environment and does not control: whether CUDA is
  available, and for which paths the operating system refuses \<^verbatim>\<open>os.makedirs\<close>.
\<close>

record env =
  cuda_available :: bool
  makedirs_refused :: "string \<Rightarrow> bool"

text \<open>The wrapper classes the pipeline can instantiate.\<close>

datatype wrapper =
    SimplePromptGenerator
  | LMPromptGenerator
  | TinyLlamaLMPromptGenerator
  | LMSynonymGenerator
  | WordNetSynonymGenerator
  | StableDiffusionImageGenerator
  | StableDiffusionTurboImageGenerator
  | StableDiffusionLightningImageGenerator
  | OWLv2Annotator

text \<open>
  A rectangle patch and a pyplot figure: the image shown, the patches added to the axes,
  the texts (position, class name, score) and the title. Box coordinates are NumPy floats;
  they are read as rationals and the rounding of the two subtractions is not modelled.
\<close>

type_synonym box = "rat \<times> rat \<times> rat \<times> rat"

record rectangle =
  rect_xy :: "rat \<times> rat"
  rect_width :: rat
  rect_height :: rat

record 'img figure =
  fig_image :: 'img
  fig_patches :: "rectangle list"
  fig_texts :: "(rat \<times> rat \<times> pyval \<times> pyfloat) list"
  fig_title :: "string option"

text \<open>
  A JSON annotation entry of one image, and the values of the annotation object: image
  entries and the class-name list.
\<close>

datatype jentry =
    DetEntry "box list" "int list"
  | ClfEntry "nat list"

datatype jvalue =
    ImageEntry jentry
  | ClassNames "pyval list"

type_synonym annotations = "(string \<times> jvalue) list"

type_synonym prompt = "pyval list \<times> string"

type_synonym synonyms = "(pyval \<times> pyval list) list"

text \<open>What a file holds, by the call of the program that wrote it.\<close>

datatype 'img file_content =
    ArgsJson args
  | PromptsJson "prompt list"
  | SynonymsJson synonyms
  | ImageJpeg 'img
  | AnnotationsJson annotations
  | FigureJpeg "'img figure"

text \<open>
  The part of the world the program changes: the directories, the files, and the wrapper
  classes instantiated so far, in order. Paths are compared as strings.
\<close>

record 'img world =
  dirs :: "string list"
  files :: "string \<Rightarrow> 'img file_content option"
  instantiated :: "wrapper list"

definition path_exists :: "'img world \<Rightarrow> string \<Rightarrow> bool" where
  "path_exists w p \<longleftrightarrow> p \<in> set (dirs w) \<or> files w p \<noteq> None"

definition makedirs :: "env \<Rightarrow> string \<Rightarrow> 'img world \<Rightarrow> error + 'img world" where
  "makedirs e p w =
     (if makedirs_refused e p \<or> path_exists w p then Inl (OSError p)
      else Inr (w\<lparr>dirs := dirs w @ [p]\<rparr>))"

text \<open>\<^verbatim>\<open>open(path, "w")\<close> followed by a dump: the file holds the new content.\<close>

definition write_file :: "string \<Rightarrow> 'img file_content \<Rightarrow> 'img world \<Rightarrow> 'img world" where
  "write_file p c w = w\<lparr>files := (files w)(p \<mapsto> c)\<rparr>"

definition instantiate :: "wrapper \<Rightarrow> 'img world \<Rightarrow> 'img world" where
  "instantiate c w = w\<lparr>instantiated := instantiated w @ [c]\<rparr>"

subsection \<open>check_args\<close>

text \<open>
  The checks in the order of the source; each raises ValueError. The result is the
  namespace and the world after the call (the save directory may have been created).
\<close>

definition raise_ValueError :: "string \<Rightarrow> error + 'a" where
  "raise_ValueError msg = Inl (ValueError msg)"

definition check_save_dir :: "env \<Rightarrow> 'img world \<Rightarrow> args \<Rightarrow> error + 'img world" where
  "check_save_dir e w a =
     (if \<not> path_exists w (save_dir a) then
        (case makedirs e (save_dir a) w of
           Inl err \<Rightarrow> raise_ValueError (''Cannot create directory '' @ save_dir a)
         | Inr w' \<Rightarrow> Inr w')
      else Inr w)"

text \<open>
  The comparison of the two bounds is reached only when the list has two elements that are
  both integers (Python's \<^verbatim>\<open>or\<close> stops at the first true operand), so reading them with
  \<open>int_of_pyval\<close> and \<open>!\<close> loses nothing: where the earlier operands are true the
  disjunction is true whatever these return.
\<close>

fun int_of_pyval :: "pyval \<Rightarrow> int" where
  "int_of_pyval (PInt n) = n"
| "int_of_pyval v = 0"

definition check_args :: "env \<Rightarrow> 'img world \<Rightarrow> args \<Rightarrow> error + args \<times> 'img world" where
  "check_args e w a =
     bind_res (check_save_dir e w a) (\<lambda>w'.
     if class_names a = [] \<or> list_ex (\<lambda>name. \<not> is_str name) (class_names a) then
       raise_ValueError ''--class_names must be a non-empty list of strings''
     else if prompts_number a \<le> 0 then
       raise_ValueError ''--prompts_number must be a positive integer''
     else if length (num_objects_range a) \<noteq> 2
          \<or> \<not> list_all is_int (num_objects_range a)
          \<or> int_of_pyval (num_objects_range a ! 0) > int_of_pyval (num_objects_range a ! 1) then
       raise_ValueError ''--num_objects_range must be two integers where the first is less than or equal to the second''
     else if int_of_pyval (num_objects_range a ! 1) > int (length (class_names a)) then
       raise_ValueError ''--num_objects_range[1] must be less than or equal to the number of class names''
     else if \<not> (int_le_float 0 (conf_threshold a) \<and> float_le_int (conf_threshold a) 1) then
       raise_ValueError ''--conf_threshold must be between 0 and 1''
     else if image_tester_patience a < 0 then
       raise_ValueError ''--image_tester_patience must be a non-negative integer''
     else if device a = ''cuda'' \<and> \<not> cuda_available e then
       raise_ValueError ''CUDA is not available. Please use --device cpu''
     else if lm_quantization a \<noteq> ''none''
          \<and> (device a = ''cpu'' \<or> \<not> cuda_available e \<or> prompt_generator a \<noteq> ''lm'') then
       raise_ValueError ''LM Quantization is only available for CUDA devices and Mistral LM''
     else if batch_size_prompt a < 1 then
       raise_ValueError ''--batch_size_prompt must be a positive integer''
     else if batch_size_annotation a < 1 then
       raise_ValueError ''--batch_size_annotation must be a positive integer''
     else if batch_size_image a < 1 then
       raise_ValueError ''--batch_size_image must be a positive integer''
     else if seed a < 0 then
       raise_ValueError ''--seed must be a non-negative integer''
     else Inr (a, w'))"

subsection \<open>Writing the annotation files\<close>

text \<open>
  The annotation object is a Python dictionary: assigning to a key that is present
  replaces its value in place, a new key goes to the end (\<open>AList.update\<close>). The loops
  run over \<^verbatim>\<open>zip\<close> of their list arguments.
\<close>

fun det_entries ::
  "(string \<times> box ndarray \<times> int ndarray) list \<Rightarrow> annotations \<Rightarrow> annotations" where
  "det_entries [] annotations = annotations"
| "det_entries ((image_path, bboxes, labels) # rest) annotations =
     det_entries rest
       (AList.update (basename image_path)
          (ImageEntry (DetEntry (tolist bboxes) (tolist labels))) annotations)"

definition det_annotations ::
  "string list \<Rightarrow> box ndarray list \<Rightarrow> int ndarray list \<Rightarrow> pyval list \<Rightarrow> annotations" where
  "det_annotations image_paths boxes_list labels_list cnames =
     AList.update ''class_names'' (ClassNames cnames)
       (det_entries (zip3 image_paths boxes_list labels_list) [])"

definition save_det_annotations_to_json ::
  "string list \<Rightarrow> box ndarray list \<Rightarrow> int ndarray list \<Rightarrow> pyval list \<Rightarrow> string \<Rightarrow> string
   \<Rightarrow> 'img world \<Rightarrow> 'img world" where
  "save_det_annotations_to_json image_paths boxes_list labels_list cnames sdir file_name w =
     write_file (path_join sdir file_name)
       (AnnotationsJson (det_annotations image_paths boxes_list labels_list cnames)) w"

fun clf_entries :: "(string \<times> nat ndarray) list \<Rightarrow> annotations \<Rightarrow> annotations" where
  "clf_entries [] annotations = annotations"
| "clf_entries ((image_path, labels) # rest) annotations =
     clf_entries rest
       (AList.update (basename image_path) (ImageEntry (ClfEntry (tolist labels))) annotations)"

definition clf_annotations ::
  "string list \<Rightarrow> nat ndarray list \<Rightarrow> pyval list \<Rightarrow> annotations" where
  "clf_annotations image_paths labels_list cnames =
     AList.update ''class_names'' (ClassNames cnames)
       (clf_entries (zip image_paths labels_list) [])"

definition save_clf_annotations_to_json ::
  "string list \<Rightarrow> nat ndarray list \<Rightarrow> pyval list \<Rightarrow> string \<Rightarrow> string
   \<Rightarrow> 'img world \<Rightarrow> 'img world" where
  "save_clf_annotations_to_json image_paths labels_list cnames sdir file_name w =
     write_file (path_join sdir file_name)
       (AnnotationsJson (clf_annotations image_paths labels_list cnames)) w"

subsection \<open>The model wrappers\<close>

text \<open>
  The wrapper classes live in other modules of the package. An instance is the class
  with the keyword arguments of its construction; what its methods return is a
  parameter of the pipeline, a function of the instance and the call's arguments. The
  calls are taken to return (no exception, finitely many image batches).
\<close>

record prompt_generator_obj =
  pg_class :: wrapper
  pg_class_names :: "pyval list"
  pg_prompts_number :: int
  pg_num_objects_range :: "pyval list"
  pg_seed :: int
  pg_device :: string
  pg_quantization :: string
  pg_batch_size :: int

record synonym_generator_obj =
  sg_class :: wrapper
  sg_device :: string

record image_generator_obj =
  ig_class :: wrapper
  ig_seed :: int
  ig_use_clip_image_tester :: bool
  ig_image_tester_patience :: int
  ig_batch_size :: int
  ig_device :: string

record annotator_obj =
  an_class :: wrapper
  an_device :: string

record 'img models =
  generate_prompts :: "prompt_generator_obj \<Rightarrow> prompt list"
  generate_synonyms_for_list :: "synonym_generator_obj \<Rightarrow> pyval list \<Rightarrow> synonyms"
  generate_images ::
    "image_generator_obj \<Rightarrow> string list \<Rightarrow> pyval list list \<Rightarrow> 'img list list"
  annotate_batch ::
    "annotator_obj \<Rightarrow> 'img list \<Rightarrow> pyval list \<Rightarrow> pyfloat \<Rightarrow> bool \<Rightarrow> synonyms option
     \<Rightarrow> box ndarray list \<times> pyfloat ndarray list \<times> int ndarray list"

definition prompt_generators :: "(string \<times> wrapper) list" where
  "prompt_generators =
     [(''simple'', SimplePromptGenerator), (''lm'', LMPromptGenerator),
      (''tiny'', TinyLlamaLMPromptGenerator)]"

definition synonym_generators :: "(string \<times> wrapper) list" where
  "synonym_generators = [(''llm'', LMSynonymGenerator), (''wordnet'', WordNetSynonymGenerator)]"

definition image_generators :: "(string \<times> wrapper) list" where
  "image_generators =
     [(''sdxl'', StableDiffusionImageGenerator),
      (''sdxl-turbo'', StableDiffusionTurboImageGenerator),
      (''sdxl-lightning'', StableDiffusionLightningImageGenerator)]"

definition annotators :: "(string \<times> wrapper) list" where
  "annotators = [(''owlv2'', OWLv2Annotator)]"

subsection \<open>main\<close>

text \<open>
  The four constructor calls of \<^verbatim>\<open>main\<close>, each with the keyword arguments it passes
  (lines 319 to 327, 338, 347 to 353 and 386).
\<close>

definition new_prompt_generator :: "wrapper \<Rightarrow> args \<Rightarrow> prompt_generator_obj" where
  "new_prompt_generator prompt_generator_class a =
     \<lparr> pg_class = prompt_generator_class, pg_class_names = class_names a,
       pg_prompts_number = prompts_number a, pg_num_objects_range = num_objects_range a,
       pg_seed = seed a, pg_device = device a, pg_quantization = lm_quantization a,
       pg_batch_size = batch_size_prompt a \<rparr>"

definition new_synonym_generator :: "wrapper \<Rightarrow> args \<Rightarrow> synonym_generator_obj" where
  "new_synonym_generator synonym_generator_class a =
     \<lparr> sg_class = synonym_generator_class, sg_device = device a \<rparr>"

definition new_image_generator :: "wrapper \<Rightarrow> args \<Rightarrow> image_generator_obj" where
  "new_image_generator image_generator_class a =
     \<lparr> ig_class = image_generator_class, ig_seed = seed a,
       ig_use_clip_image_tester = use_image_tester a,
       ig_image_tester_patience = image_tester_patience a,
       ig_batch_size = batch_size_image a, ig_device = device a \<rparr>"

definition new_annotator :: "wrapper \<Rightarrow> args \<Rightarrow> annotator_obj" where
  "new_annotator annotator_class a = \<lparr> an_class = annotator_class, an_device = device a \<rparr>"

text \<open>
  Prompt generation (lines 317 to 332): the class is looked up by the option's value and
  instantiated; \<^verbatim>\<open>save_prompts\<close> writes the generated prompts to the path it is given.
\<close>

definition prompt_stage ::
  "'img models \<Rightarrow> args \<Rightarrow> 'img world \<Rightarrow> error + prompt list \<times> 'img world" where
  "prompt_stage m a w =
     bind_res (dict_getitem prompt_generators (prompt_generator a)) (\<lambda>prompt_generator_class.
     let pg = new_prompt_generator prompt_generator_class a;
         w1 = instantiate prompt_generator_class w;
         generated_prompts = generate_prompts m pg;
         w2 = write_file (path_join (save_dir a) ''prompts.json'')
                (PromptsJson generated_prompts) w1
     in Inr (generated_prompts, w2))"

text \<open>
  Synonym generation (lines 334 to 343): skipped when the option is \<^verbatim>\<open>none\<close>, and then
  \<^verbatim>\<open>synonym_dict\<close> stays \<^verbatim>\<open>None\<close>.
\<close>

definition synonym_stage ::
  "'img models \<Rightarrow> args \<Rightarrow> 'img world \<Rightarrow> error + synonyms option \<times> 'img world" where
  "synonym_stage m a w =
     (if synonym_generator a \<noteq> ''none'' then
        bind_res (dict_getitem synonym_generators (synonym_generator a))
          (\<lambda>synonym_generator_class.
        let sg = new_synonym_generator synonym_generator_class a;
            w1 = instantiate synonym_generator_class w;
            synonym_dict = generate_synonyms_for_list m sg (class_names a);
            w2 = write_file (path_join (save_dir a) ''synonyms.json'')
                   (SynonymsJson synonym_dict) w1
        in Inr (Some synonym_dict, w2))
      else Inr (None, w))"

text \<open>
  Image generation (lines 345 to 369). The state of the two nested loops is the world,
  \<^verbatim>\<open>image_paths\<close> and \<^verbatim>\<open>num_generated_images\<close>.
\<close>

fun save_image_batch ::
  "string \<Rightarrow> 'img list \<Rightarrow> 'img world \<times> string list \<times> nat
   \<Rightarrow> 'img world \<times> string list \<times> nat" where
  "save_image_batch sdir [] st = st"
| "save_image_batch sdir (generated_image # rest) (w, image_paths, num_generated_images) =
     (let image_path = path_join sdir (''image_'' @ str_nat num_generated_images @ ''.jpg'')
      in save_image_batch sdir rest
           (write_file image_path (ImageJpeg generated_image) w,
            image_paths @ [image_path], num_generated_images + 1))"

fun save_images ::
  "string \<Rightarrow> 'img list list \<Rightarrow> 'img world \<times> string list \<times> nat
   \<Rightarrow> 'img world \<times> string list \<times> nat" where
  "save_images sdir [] st = st"
| "save_images sdir (generated_images_batch # rest) st =
     save_images sdir rest (save_image_batch sdir generated_images_batch st)"

definition image_stage ::
  "'img models \<Rightarrow> args \<Rightarrow> prompt list \<Rightarrow> 'img world
   \<Rightarrow> error + (string list \<times> nat) \<times> 'img world" where
  "image_stage m a generated_prompts w =
     bind_res (dict_getitem image_generators (image_generator a)) (\<lambda>image_generator_class.
     let ig = new_image_generator image_generator_class a;
         w1 = instantiate image_generator_class w;
         prompts = map snd generated_prompts;
         prompt_objects = map fst generated_prompts
     in case save_images (save_dir a) (generate_images m ig prompts prompt_objects) (w1, [], 0)
        of (w2, image_paths, num_generated_images) \<Rightarrow>
             Inr ((image_paths, num_generated_images), w2))"

text \<open>Classification annotation (lines 371 to 382): labels come from the prompt objects.\<close>

definition clf_labels :: "pyval list \<Rightarrow> pyval list \<Rightarrow> error + nat ndarray" where
  "clf_labels cnames prompt_objs =
     bind_res (map_res (py_index cnames) prompt_objs) (\<lambda>labels. Inr (np_unique labels))"

definition classification_stage ::
  "args \<Rightarrow> prompt list \<Rightarrow> string list \<Rightarrow> 'img world \<Rightarrow> error + 'img world" where
  "classification_stage a generated_prompts image_paths w =
     bind_res (map_res (clf_labels (class_names a)) (map fst generated_prompts)) (\<lambda>labels_list.
     Inr (save_clf_annotations_to_json image_paths labels_list (class_names a) (save_dir a)
            ''annotations.json'' w))"

text \<open>
  Detection annotation (lines 383 to 456). \<^verbatim>\<open>image_batches\<close> is the list comprehension
  over \<^verbatim>\<open>range(0, len(image_paths), batch_size_annotation)\<close>.
\<close>

definition image_batches :: "string list \<Rightarrow> int \<Rightarrow> error + string list list" where
  "image_batches image_paths bs =
     bind_res (py_range 0 (int (length image_paths)) bs) (\<lambda>starts.
     Inr (map (\<lambda>i. py_slice image_paths i (i + bs)) starts))"

definition image_open :: "'img world \<Rightarrow> string \<Rightarrow> error + 'img" where
  "image_open w p =
     (case files w p of
        None \<Rightarrow> Inl (FileNotFoundError p)
      | Some (ImageJpeg img) \<Rightarrow> Inr img
      | Some other \<Rightarrow> Inl (UnidentifiedImageError p))"

definition new_figure :: "'img \<Rightarrow> 'img figure" where
  "new_figure img = \<lparr> fig_image = img, fig_patches = [], fig_texts = [], fig_title = None \<rparr>"

text \<open>
  The loop over the boxes of one image (lines 420 to 442), with the figure and
  \<^verbatim>\<open>labels\<close> as its state; \<open>k\<close> is \<^verbatim>\<open>i * args.batch_size_annotation + j\<close>.
\<close>

fun draw_boxes ::
  "pyval list \<Rightarrow> prompt list \<Rightarrow> int \<Rightarrow> (box \<times> pyfloat \<times> int) list
   \<Rightarrow> 'img figure \<times> int list \<Rightarrow> error + 'img figure \<times> int list" where
  "draw_boxes cnames generated_prompts k [] st = Inr st"
| "draw_boxes cnames generated_prompts k (((x1, y1, x2, y2), score, label) # rest) (fig, labels) =
     (let labels1 = labels @ [label];
          rect = \<lparr> rect_xy = (x1, y1), rect_width = x2 - x1, rect_height = y2 - y1 \<rparr>;
          fig1 = fig\<lparr>fig_patches := fig_patches fig @ [rect]\<rparr>
      in bind_res (py_getitem cnames label) (\<lambda>label_text.
         let fig2 = fig1\<lparr>fig_texts := fig_texts fig1 @ [(x1, y1, label_text, score)]\<rparr>
         in bind_res (py_getitem generated_prompts k) (\<lambda>p.
            draw_boxes cnames generated_prompts k rest
              (fig2\<lparr>fig_title := Some (snd p)\<rparr>, labels1))))"

text \<open>
  The loop over the images of one batch (lines 415 to 451): \<open>j\<close> counts the images done,
  the state is the world and \<^verbatim>\<open>labels_list\<close>.
\<close>

fun annotate_images ::
  "pyval list \<Rightarrow> prompt list \<Rightarrow> string \<Rightarrow> int \<Rightarrow> nat
   \<Rightarrow> box ndarray list \<Rightarrow> pyfloat ndarray list \<Rightarrow> int ndarray list
   \<Rightarrow> nat \<Rightarrow> 'img list \<Rightarrow> 'img world \<times> int ndarray list
   \<Rightarrow> error + 'img world \<times> int ndarray list" where
  "annotate_images cnames gp bbox_dir bs i boxes_batch scores_batch local_labels_batch j [] st =
     Inr st"
| "annotate_images cnames gp bbox_dir bs i boxes_batch scores_batch local_labels_batch j
     (img # rest) (w, labels_list) =
     bind_res (py_getitem boxes_batch (int j)) (\<lambda>boxes.
     bind_res (py_getitem scores_batch (int j)) (\<lambda>scores.
     bind_res (py_getitem local_labels_batch (int j)) (\<lambda>local_labels.
     bind_res (draw_boxes cnames gp (int i * bs + int j)
                 (zip3 (tolist boxes) (tolist scores) (tolist local_labels))
                 (new_figure img, [])) (\<lambda>(fig, labels).
     annotate_images cnames gp bbox_dir bs i boxes_batch scores_batch local_labels_batch
       (Suc j) rest
       (write_file (path_join bbox_dir (''bbox_'' @ str_int (int i * bs + int j) @ ''.jpg''))
          (FigureJpeg fig) w,
        labels_list @ [np_array labels])))))"

text \<open>
  The loop over the batches (lines 398 to 451): \<open>i\<close> counts the batches done, the state
  is the world with \<^verbatim>\<open>boxes_list\<close>, \<^verbatim>\<open>scores_list\<close> and \<^verbatim>\<open>labels_list\<close>.
\<close>

fun annotate_batches ::
  "'img models \<Rightarrow> annotator_obj \<Rightarrow> args \<Rightarrow> synonyms option \<Rightarrow> prompt list \<Rightarrow> string
   \<Rightarrow> nat \<Rightarrow> string list list
   \<Rightarrow> 'img world \<times> box ndarray list \<times> pyfloat ndarray list \<times> int ndarray list
   \<Rightarrow> error + 'img world \<times> box ndarray list \<times> pyfloat ndarray list \<times> int ndarray list" where
  "annotate_batches m annotator a synonym_dict gp bbox_dir i [] st = Inr st"
| "annotate_batches m annotator a synonym_dict gp bbox_dir i (image_batch # rest)
     (w, boxes_list, scores_list, labels_list) =
     bind_res (map_res (image_open w) image_batch) (\<lambda>images.
     case annotate_batch m annotator images (class_names a) (conf_threshold a) (use_tta a)
            synonym_dict
     of (boxes_batch, scores_batch, local_labels_batch) \<Rightarrow>
       bind_res (annotate_images (class_names a) gp bbox_dir (batch_size_annotation a) i
                   boxes_batch scores_batch local_labels_batch 0 images (w, labels_list))
         (\<lambda>(w1, labels_list1).
       annotate_batches m annotator a synonym_dict gp bbox_dir (Suc i) rest
         (w1, boxes_list @ boxes_batch, scores_list @ scores_batch, labels_list1)))"

definition detection_stage ::
  "'img models \<Rightarrow> args \<Rightarrow> synonyms option \<Rightarrow> prompt list \<Rightarrow> string \<Rightarrow> string list
   \<Rightarrow> 'img world \<Rightarrow> error + 'img world" where
  "detection_stage m a synonym_dict generated_prompts bbox_dir image_paths w =
     bind_res (dict_getitem annotators (image_annotator a)) (\<lambda>annotator_class.
     let annotator = new_annotator annotator_class a;
         w1 = instantiate annotator_class w
     in bind_res (image_batches image_paths (batch_size_annotation a)) (\<lambda>batches.
        bind_res (annotate_batches m annotator a synonym_dict generated_prompts bbox_dir 0
                    batches (w1, [], [], []))
          (\<lambda>(w2, boxes_list, scores_list, labels_list).
        Inr (save_det_annotations_to_json image_paths boxes_list labels_list (class_names a)
               (save_dir a) ''annotations.json'' w2))))"

text \<open>
  \<^verbatim>\<open>main\<close>, from the parsed arguments on: the checks, the two directories, the
  argument file, then the stages in order.
\<close>

definition ensure_dir :: "env \<Rightarrow> string \<Rightarrow> 'img world \<Rightarrow> error + 'img world" where
  "ensure_dir e p w = (if \<not> path_exists w p then makedirs e p w else Inr w)"

definition main :: "env \<Rightarrow> 'img models \<Rightarrow> args \<Rightarrow> 'img world \<Rightarrow> error + 'img world" where
  "main e m parsed w0 =
     bind_res (check_args e w0 parsed) (\<lambda>(a, w1).
     let sdir = save_dir a;
         bbox_dir = path_join sdir ''bboxes_visualization''
     in bind_res (ensure_dir e sdir w1) (\<lambda>w2.
        bind_res (ensure_dir e bbox_dir w2) (\<lambda>w3.
        let w4 = write_file (path_join sdir ''generation_args.json'') (ArgsJson a) w3
        in bind_res (prompt_stage m a w4) (\<lambda>(generated_prompts, w5).
           bind_res (synonym_stage m a w5) (\<lambda>(synonym_dict, w6).
           bind_res (image_stage m a generated_prompts w6)
             (\<lambda>((image_paths, num_generated_images), w7).
           if task a = ''classification'' then
             classification_stage a generated_prompts image_paths w7
           else
             detection_stage m a synonym_dict generated_prompts bbox_dir image_paths w7))))))"

subsection \<open>The argument constraints as the specification lists them\<close>

text \<open>
  The constraints in the words of the specification, independent of the order in which
  \<^verbatim>\<open>check_args\<close> tests them: exactly two integers with the first at most the second; the
  second element above the number of class names; a threshold inside the unit interval.
\<close>

fun two_ordered_ints :: "pyval list \<Rightarrow> bool" where
  "two_ordered_ints [PInt lo, PInt hi] = (lo \<le> hi)"
| "two_ordered_ints r = False"

fun second_exceeds :: "pyval list \<Rightarrow> int \<Rightarrow> bool" where
  "second_exceeds (x # PInt hi # r) n = (hi > n)"
| "second_exceeds r n = False"

fun in_unit_interval :: "pyfloat \<Rightarrow> bool" where
  "in_unit_interval (Finite q) = (0 \<le> q \<and> q \<le> 1)"
| "in_unit_interval c = False"

definition constraint_violated :: "env \<Rightarrow> args \<Rightarrow> bool" where
  "constraint_violated e a \<longleftrightarrow>
     class_names a = [] \<or> \<not> list_all is_str (class_names a)
   \<or> prompts_number a \<le> 0
   \<or> \<not> two_ordered_ints (num_objects_range a)
   \<or> second_exceeds (num_objects_range a) (int (length (class_names a)))
   \<or> \<not> in_unit_interval (conf_threshold a)
   \<or> image_tester_patience a < 0
   \<or> (device a = ''cuda'' \<and> \<not> cuda_available e)
   \<or> (lm_quantization a \<noteq> ''none''
        \<and> (device a = ''cpu'' \<or> \<not> cuda_available e \<or> prompt_generator a \<noteq> ''lm''))
   \<or> batch_size_prompt a < 1
   \<or> batch_size_annotation a < 1
   \<or> batch_size_image a < 1
   \<or> seed a < 0"

subsection \<open>Concrete inputs\<close>

text \<open>An environment with CUDA where every directory can be made, and an empty world.\<close>

definition demo_env :: env where
  "demo_env = \<lparr> cuda_available = True, makedirs_refused = (\<lambda>p. False) \<rparr>"

definition empty_world :: "nat world" where
  "empty_world = \<lparr> dirs = [], files = (\<lambda>p. None), instantiated = [] \<rparr>"

subsection \<open>Auxiliary notions for the proofs\<close>

text \<open>The directory part that path_join puts before a relative component.\<close>

definition dir_prefix :: "string \<Rightarrow> string" where
  "dir_prefix a = (if a = [] \<or> last a = CHR ''/'' then a else a @ ''/'')"

text \<open>The file name of the \<open>n\<close>-th generated image.\<close>

definition image_name :: "nat \<Rightarrow> string" where
  "image_name n = ''image_'' @ str_nat n @ ''.jpg''"

text \<open>
  Storing a list of key-value pairs into a dictionary one after the other; the loops of
  the two functions that write annotations are instances.
\<close>

definition update_all :: "(string \<times> jvalue) list \<Rightarrow> annotations \<Rightarrow> annotations" where
  "update_all kvs ann = fold (\<lambda>(k, v). AList.update k v) kvs ann"

definition det_item :: "string \<times> box ndarray \<times> int ndarray \<Rightarrow> string \<times> jvalue" where
  "det_item z = (case z of (image_path, bboxes, labels) \<Rightarrow>
     (basename image_path, ImageEntry (DetEntry (tolist bboxes) (tolist labels))))"

definition clf_item :: "string \<times> nat ndarray \<Rightarrow> string \<times> jvalue" where
  "clf_item z = (case z of (image_path, labels) \<Rightarrow>
     (basename image_path, ImageEntry (ClfEntry (tolist labels))))"

text \<open>
  The position of the first occurrence of \<open>x\<close> in \<open>xs\<close> (the length of \<open>xs\<close> if there
  is none), and the sorted distinct first-occurrence indices of a prompt's objects.
\<close>

definition first_index :: "'a list \<Rightarrow> 'a \<Rightarrow> nat" where
  "first_index xs x = length (takeWhile (\<lambda>y. y \<noteq> x) xs)"

definition sorted_distinct_indices :: "pyval list \<Rightarrow> pyval list \<Rightarrow> nat list" where
  "sorted_distinct_indices cnames objs = sorted_list_of_set (first_index cnames ` set objs)"

text \<open>
  Stand-ins for the model wrappers: three prompts, three image numbers in two batches, one
  synonym per class name, and a detector that reports one box of class 1 in every image.
\<close>

definition demo_models :: "nat models" where
  "demo_models =
     \<lparr> generate_prompts = (\<lambda>pg.
         [([PStr ''person'', PStr ''bear''], ''a person and a bear''),
          ([PStr ''bird''], ''a bird''),
          ([PStr ''bear''], ''a bear'')]),
       generate_synonyms_for_list = (\<lambda>sg cnames. map (\<lambda>c. (c, [c])) cnames),
       generate_images = (\<lambda>ig prompts prompt_objects. [[100, 101], [102]]),
       annotate_batch = (\<lambda>an images cnames conf tta syn.
         (map (\<lambda>im. NdArray [(0, 0, 1, 1)]) images,
          map (\<lambda>im. NdArray [Finite (1 / 2)]) images,
          map (\<lambda>im. NdArray [1]) images)) \<rparr>"

definition detection_args :: args where
  "detection_args = default_args\<lparr>batch_size_annotation := 2, synonym_generator := ''wordnet''\<rparr>"

definition classification_args :: args where
  "classification_args = default_args\<lparr>task := ''classification''\<rparr>"

text \<open>
  For the detection loop: the file name of the \<open>k\<close>-th visualization, the rectangle
  drawn for a detection, the detections of the \<open>j\<close>-th image of a batch as \<^verbatim>\<open>zip\<close>
  pairs them, and the label array built from them.
\<close>

definition bbox_name :: "int \<Rightarrow> string" where
  "bbox_name k = ''bbox_'' @ str_int k @ ''.jpg''"

definition rect_of :: "box \<times> pyfloat \<times> int \<Rightarrow> rectangle" where
  "rect_of z = (case z of ((x1, y1, x2, y2), score, label) \<Rightarrow>
     \<lparr> rect_xy = (x1, y1), rect_width = x2 - x1, rect_height = y2 - y1 \<rparr>)"

definition paired ::
  "box ndarray list \<times> pyfloat ndarray list \<times> int ndarray list \<Rightarrow> nat
   \<Rightarrow> (box \<times> pyfloat \<times> int) list" where
  "paired out j =
     zip3 (tolist (fst out ! j)) (tolist (fst (snd out) ! j)) (tolist (snd (snd out) ! j))"

definition image_labels ::
  "box ndarray list \<times> pyfloat ndarray list \<times> int ndarray list \<Rightarrow> nat \<Rightarrow> int ndarray" where
  "image_labels out j = np_array (map (\<lambda>z. snd (snd z)) (paired out j))"

text \<open>The call of \<^verbatim>\<open>annotate_batch\<close> in the loop over the batches, for the images of one batch.\<close>

definition detect ::
  "'img models \<Rightarrow> annotator_obj \<Rightarrow> args \<Rightarrow> synonyms option \<Rightarrow> 'img list
   \<Rightarrow> box ndarray list \<times> pyfloat ndarray list \<times> int ndarray list" where
  "detect m annotator a synonym_dict images =
     annotate_batch m annotator images (class_names a) (conf_threshold a) (use_tta a)
       synonym_dict"

text \<open>
  What a run computes, named from the arguments and the models: the generated prompts,
  the synonym dictionary (\<^verbatim>\<open>None\<close> without a synonym generator), the generated images in
  order, their paths, the \<open>t\<close>-th batch of a list, the number of batches, and what the
  annotator returns for the \<open>t\<close>-th batch of images. Where an option's value is not a key
  of its dictionary \<^verbatim>\<open>main\<close> raises; the defaults given for that case here are never
  reached in a run that returns.
\<close>

definition prompts_of :: "'img models \<Rightarrow> args \<Rightarrow> prompt list" where
  "prompts_of m a =
     (case map_of prompt_generators (prompt_generator a) of
        Some c \<Rightarrow> generate_prompts m (new_prompt_generator c a)
      | None \<Rightarrow> [])"

definition synonyms_of :: "'img models \<Rightarrow> args \<Rightarrow> synonyms option" where
  "synonyms_of m a =
     (if synonym_generator a = ''none'' then None
      else case map_of synonym_generators (synonym_generator a) of
             Some c \<Rightarrow> Some (generate_synonyms_for_list m (new_synonym_generator c a)
                             (class_names a))
           | None \<Rightarrow> None)"

definition images_of :: "'img models \<Rightarrow> args \<Rightarrow> 'img list" where
  "images_of m a =
     (case map_of image_generators (image_generator a) of
        Some c \<Rightarrow> concat (generate_images m (new_image_generator c a)
                            (map snd (prompts_of m a)) (map fst (prompts_of m a)))
      | None \<Rightarrow> [])"

definition image_paths_of :: "'img models \<Rightarrow> args \<Rightarrow> string list" where
  "image_paths_of m a =
     map (\<lambda>n. path_join (save_dir a) (image_name n)) [0..<length (images_of m a)]"

definition image_batch :: "'a list \<Rightarrow> int \<Rightarrow> nat \<Rightarrow> 'a list" where
  "image_batch xs bs t = take (nat bs) (drop (t * nat bs) xs)"

definition num_batches :: "nat \<Rightarrow> int \<Rightarrow> nat" where
  "num_batches n bs = (n + nat bs - 1) div nat bs"

definition detections_of ::
  "'img models \<Rightarrow> args \<Rightarrow> nat
   \<Rightarrow> box ndarray list \<times> pyfloat ndarray list \<times> int ndarray list" where
  "detections_of m a t =
     detect m (new_annotator OWLv2Annotator a) a (synonyms_of m a)
       (image_batch (images_of m a) (batch_size_annotation a) t)"

text \<open>Observations of the world a run ends in.\<close>

definition file_at :: "string \<Rightarrow> 'img world \<Rightarrow> 'img file_content option" where
  "file_at p w = files w p"

definition was_instantiated :: "wrapper \<Rightarrow> 'img world \<Rightarrow> bool" where
  "was_instantiated c w \<longleftrightarrow> c \<in> set (instantiated w)"

section \<open>Properties\<close>

subsection \<open>Argument checks\<close>

lemma conf_threshold_check_iff:
  "(int_le_float 0 c \<and> float_le_int c 1) \<longleftrightarrow> in_unit_interval c"
  by (cases c) auto

lemma range_shape_check_iff:
  "(length r \<noteq> 2 \<or> \<not> list_all is_int r \<or> int_of_pyval (r ! 0) > int_of_pyval (r ! 1))
   \<longleftrightarrow> \<not> two_ordered_ints r"
  by (induction r rule: two_ordered_ints.induct) auto

lemma range_upper_check_iff:
  "two_ordered_ints r \<Longrightarrow> (int_of_pyval (r ! 1) > n) \<longleftrightarrow> second_exceeds r n"
  by (induction r rule: two_ordered_ints.induct) auto

lemma check_save_dir_returns:
  "path_exists w (save_dir a) \<or> \<not> makedirs_refused e (save_dir a) \<Longrightarrow>
   \<exists>w'. check_save_dir e w a = Inr w'"
  by (auto simp: check_save_dir_def makedirs_def)

text \<open>
  Claim C1. When the save directory exists or can be created, \<^verbatim>\<open>check_args\<close> raises
  ValueError exactly when one of the listed constraints is violated; when none is, it
  returns and the namespace is the one it was given.
\<close>

theorem check_args_raises_iff:
  assumes "path_exists w (save_dir a) \<or> \<not> makedirs_refused e (save_dir a)"
  shows "((\<exists>msg. check_args e w a = Inl (ValueError msg)) \<longleftrightarrow> constraint_violated e a)
       \<and> (\<not> constraint_violated e a \<longrightarrow> (\<exists>w'. check_args e w a = Inr (a, w')))"
proof -
  from check_save_dir_returns[OF assms]
  obtain w' where w': "check_save_dir e w a = Inr w'" by blast
  let ?r = "num_objects_range a"
  have shape: "(length ?r \<noteq> 2 \<or> \<not> list_all is_int ?r
                 \<or> int_of_pyval (?r ! 0) > int_of_pyval (?r ! 1)) = (\<not> two_ordered_ints ?r)"
    by (rule range_shape_check_iff)
  have conf: "(int_le_float 0 (conf_threshold a) \<and> float_le_int (conf_threshold a) 1)
                = in_unit_interval (conf_threshold a)"
    by (rule conf_threshold_check_iff)
  show ?thesis
  proof (cases "two_ordered_ints ?r")
    case True
    have hi: "(int_of_pyval (?r ! 1) > int (length (class_names a)))
              = second_exceeds ?r (int (length (class_names a)))"
      using True by (rule range_upper_check_iff)
    show ?thesis
      unfolding check_args_def w' bind_res_def constraint_violated_def raise_ValueError_def
        shape conf hi
      using True by (auto simp add: list_ex_iff list_all_iff)
  next
    case False
    show ?thesis
      unfolding check_args_def w' bind_res_def constraint_violated_def raise_ValueError_def
        shape conf
      using False by (auto simp add: list_ex_iff list_all_iff)
  qed
qed

theorem check_args_raises_iff_witness:
  "(path_exists empty_world (save_dir default_args)
      \<or> \<not> makedirs_refused demo_env (save_dir default_args))
   \<and> \<not> constraint_violated demo_env default_args
   \<and> (\<nexists>msg. check_args demo_env empty_world default_args = Inl (ValueError msg))
   \<and> (\<exists>w'. check_args demo_env empty_world default_args = Inr (default_args, w'))"
  using check_args_raises_iff [of empty_world default_args demo_env]
  by (simp add: constraint_violated_def demo_env_def default_args_def)

subsection \<open>Batches of image paths\<close>

lemma take_min_drop: "take (min (length xs) (i + s) - i) (drop i xs) = take s (drop i xs)"
proof (cases "length xs \<le> i + s")
  case True
  then show ?thesis by (simp add: min_def)
next
  case False
  then show ?thesis by (simp add: min_def)
qed

lemma py_slice_batch:
  assumes "0 \<le> i" "i < int (length xs)" "0 < step"
  shows "py_slice xs i (i + step) = take (nat step) (drop (nat i) xs)"
proof -
  have lo: "slice_bound (length xs) i = nat i"
    using assms by (simp add: slice_bound_def)
  have hi: "slice_bound (length xs) (i + step) = min (length xs) (nat i + nat step)"
    using assms by (simp add: slice_bound_def nat_add_distrib)
  show ?thesis by (simp add: py_slice_def lo hi take_min_drop)
qed

lemma map_batches_unfold:
  "0 < step \<Longrightarrow> i < stop \<Longrightarrow>
   map f (range_up i stop step) = f i # map f (range_up (i + step) stop step)"
  by (subst range_up.simps) simp

lemma range_up_empty: "\<not> (0 < step \<and> i < stop) \<Longrightarrow> range_up i stop step = []"
  by (subst range_up.simps) simp

lemma batches_concat:
  "0 < step \<Longrightarrow> 0 \<le> i \<Longrightarrow>
   concat (map (\<lambda>i. py_slice xs i (i + step)) (range_up i (int (length xs)) step))
   = drop (nat i) xs"
proof (induction i "int (length xs)" step rule: range_up.induct)
  case (1 i step)
  show ?case
  proof (cases "i < int (length xs)")
    case True
    have "drop (nat (i + step)) xs = drop (nat step) (drop (nat i) xs)"
      using 1(2,3) by (simp add: nat_add_distrib add.commute)
    then have "take (nat step) (drop (nat i) xs) @ drop (nat (i + step)) xs = drop (nat i) xs"
      by (simp only: append_take_drop_id)
    with 1 True show ?thesis
      by (simp add: map_batches_unfold py_slice_batch)
  next
    case False
    with 1 show ?thesis by (simp add: range_up_empty)
  qed
qed

lemma batches_nth:
  "0 < step \<Longrightarrow> 0 \<le> i \<Longrightarrow>
   k < length (range_up i (int (length xs)) step) \<Longrightarrow>
   map (\<lambda>i. py_slice xs i (i + step)) (range_up i (int (length xs)) step) ! k
   = take (nat step) (drop (nat i + k * nat step) xs)"
proof (induction i "int (length xs)" step arbitrary: k rule: range_up.induct)
  case (1 i step)
  show ?case
  proof (cases "i < int (length xs)")
    case True
    show ?thesis
    proof (cases k)
      case 0
      with 1 True show ?thesis by (simp add: map_batches_unfold py_slice_batch)
    next
      case (Suc k')
      have "k' < length (range_up (i + step) (int (length xs)) step)"
        using 1(2,3,4) True Suc by (subst (asm) range_up.simps) simp
      with 1(1)[of k'] 1(2,3) True
      have "map (\<lambda>i. py_slice xs i (i + step)) (range_up (i + step) (int (length xs)) step) ! k'
            = take (nat step) (drop (nat (i + step) + k' * nat step) xs)"
        by simp
      with 1(2,3) True Suc show ?thesis
        by (simp add: map_batches_unfold nat_add_distrib add.assoc)
    qed
  next
    case False
    with 1 show ?thesis by (simp add: range_up_empty)
  qed
qed

lemma range_up_starts:
  "0 < step \<Longrightarrow> k < length (range_up i stop step) \<Longrightarrow>
   range_up i stop step ! k = i + int k * step \<and> i + int k * step < stop"
proof (induction i stop step arbitrary: k rule: range_up.induct)
  case (1 i stop step)
  show ?case
  proof (cases "i < stop")
    case True
    show ?thesis
    proof (cases k)
      case 0
      with 1 True show ?thesis by (subst range_up.simps) simp
    next
      case (Suc k')
      have "k' < length (range_up (i + step) stop step)"
        using 1(2,3) True Suc by (subst (asm) range_up.simps) simp
      with 1(1)[of k'] 1(2) True
      have "range_up (i + step) stop step ! k' = i + step + int k' * step
            \<and> i + step + int k' * step < stop" by simp
      with 1(2) True Suc show ?thesis
        by (subst range_up.simps) (simp add: algebra_simps)
    qed
  next
    case False
    with 1 show ?thesis by (simp add: range_up_empty)
  qed
qed

lemma range_up_length_bound:
  "0 < step \<Longrightarrow> i + int k * step < stop \<Longrightarrow> k < length (range_up i stop step)"
proof (induction k arbitrary: i)
  case 0
  then show ?case by (subst range_up.simps) simp
next
  case (Suc k)
  have "i < stop"
  proof -
    have "0 \<le> int (Suc k) * step" using Suc.prems(1) by simp
    with Suc.prems(2) show ?thesis by linarith
  qed
  moreover have "k < length (range_up (i + step) stop step)"
    using Suc.prems by (intro Suc.IH) (simp_all add: algebra_simps)
  ultimately show ?case using Suc.prems(1) by (subst range_up.simps) simp
qed


lemma batch_start_nat:
  assumes "0 < bs" "k < length (range_up 0 (int n) bs)"
  shows "k * nat bs < n"
proof -
  from range_up_starts[OF assms] have "int k * bs < int n" by simp
  moreover have "int (k * nat bs) = int k * bs" using assms(1) by simp
  ultimately show ?thesis by linarith
qed

text \<open>
  Claim C6. For a batch size of at least one the batches of the detection branch split
  the list of image paths in order: their concatenation is the list, every batch is
  non-empty and no longer than the batch size, and every batch but the last has exactly
  that length.
\<close>

theorem image_batches_partition:
  assumes "1 \<le> bs"
  shows "\<exists>batches. image_batches image_paths bs = Inr batches
           \<and> concat batches = image_paths
           \<and> (\<forall>b \<in> set batches. b \<noteq> [] \<and> int (length b) \<le> bs)
           \<and> (\<forall>k. Suc k < length batches \<longrightarrow> int (length (batches ! k)) = bs)"
proof -
  let ?starts = "range_up 0 (int (length image_paths)) bs"
  let ?batches = "map (\<lambda>i. py_slice image_paths i (i + bs)) ?starts"
  have pos: "0 < bs" using assms by simp
  have run: "image_batches image_paths bs = Inr ?batches"
    using pos by (simp add: image_batches_def py_range_def bind_res_def)
  have cat: "concat ?batches = image_paths"
    using batches_concat[OF pos, of 0 image_paths] by simp
  have nth: "?batches ! k = take (nat bs) (drop (k * nat bs) image_paths)"
    if "k < length ?starts" for k
    using batches_nth[OF pos _ that] by simp
  have each: "b \<noteq> [] \<and> int (length b) \<le> bs" if "b \<in> set ?batches" for b
  proof -
    from that obtain k where k: "k < length ?starts" and b: "b = ?batches ! k"
      by (auto simp: in_set_conv_nth)
    have "k * nat bs < length image_paths" using batch_start_nat[OF pos k] .
    with pos show ?thesis unfolding b nth[OF k] by simp
  qed
  have full: "int (length (?batches ! k)) = bs" if "Suc k < length ?batches" for k
  proof -
    have k1: "Suc k < length ?starts" and k: "k < length ?starts" using that by simp_all
    have "Suc k * nat bs < length image_paths" using batch_start_nat[OF pos k1] .
    then have "nat bs \<le> length image_paths - k * nat bs" by simp
    with pos show ?thesis unfolding nth[OF k] by (simp add: min_def)
  qed
  from run cat each full show ?thesis by blast
qed

theorem image_batches_partition_witness:
  "(1::int) \<le> 2
   \<and> (\<exists>batches. image_batches [''a'', ''b'', ''c''] 2 = Inr batches
         \<and> concat batches = [''a'', ''b'', ''c'']
         \<and> (\<forall>b \<in> set batches. b \<noteq> [] \<and> int (length b) \<le> 2)
         \<and> (\<forall>k. Suc k < length batches \<longrightarrow> int (length (batches ! k)) = 2))"
  using image_batches_partition [of 2 "[''a'', ''b'', ''c'']"] by simp

subsection \<open>Numbers in file names, paths\<close>

lemma digit_char_cases:
  "d < 10 \<Longrightarrow> d = 0 \<or> d = 1 \<or> d = 2 \<or> d = 3 \<or> d = 4 \<or> d = 5 \<or> d = 6 \<or> d = 7 \<or> d = 8 \<or> d = (9::nat)"
  by arith

lemma digit_char_inj: "d < 10 \<Longrightarrow> d' < 10 \<Longrightarrow> digit_char d = digit_char d' \<Longrightarrow> d = d'"
  using digit_char_cases[of d] digit_char_cases[of d']
  by (auto simp: digit_char_def)

lemma digit_char_not_sep: "d < 10 \<Longrightarrow> digit_char d \<noteq> CHR ''/''"
  using digit_char_cases[of d] by (auto simp: digit_char_def)

lemma str_nat_nonempty: "str_nat n \<noteq> []"
  by (subst str_nat.simps) simp

lemma str_nat_inj: "str_nat n = str_nat m \<Longrightarrow> n = m"
proof (induction n arbitrary: m rule: str_nat.induct)
  case (1 n)
  show ?case
  proof (cases "n < 10")
    case n: True
    show ?thesis
    proof (cases "m < 10")
      case True
      with n 1(2) show ?thesis
        by (simp add: str_nat.simps[of n] str_nat.simps[of m] digit_char_inj)
    next
      case False
      with n 1(2) show ?thesis
        using str_nat_nonempty[of "m div 10"]
        by (auto simp add: str_nat.simps[of n] str_nat.simps[of m])
    qed
  next
    case n: False
    show ?thesis
    proof (cases "m < 10")
      case True
      with n 1(2) show ?thesis
        using str_nat_nonempty[of "n div 10"]
        by (auto simp add: str_nat.simps[of n] str_nat.simps[of m])
    next
      case False
      with n 1(2) have eq: "str_nat (n div 10) = str_nat (m div 10)"
        and d: "digit_char (n mod 10) = digit_char (m mod 10)"
        by (simp_all add: str_nat.simps[of n] str_nat.simps[of m])
      from 1(1)[OF n eq] have "n div 10 = m div 10" .
      moreover from d have "n mod 10 = m mod 10" by (intro digit_char_inj) simp_all
      ultimately show ?thesis by (metis div_mult_mod_eq)
    qed
  qed
qed

lemma str_nat_no_sep: "CHR ''/'' \<notin> set (str_nat n)"
proof (induction n rule: str_nat.induct)
  case (1 n)
  show ?case
  proof (cases "n < 10")
    case True
    then show ?thesis using digit_char_not_sep[of n] by (subst str_nat.simps) auto
  next
    case False
    with 1 show ?thesis using digit_char_not_sep[of "n mod 10"]
      by (subst str_nat.simps) auto
  qed
qed

lemma path_join_relative:
  "b = [] \<or> hd b \<noteq> CHR ''/'' \<Longrightarrow> path_join a b = dir_prefix a @ b"
  by (auto simp: path_join_def dir_prefix_def)

lemma dir_prefix_end: "dir_prefix a = [] \<or> last (dir_prefix a) = CHR ''/''"
  by (simp add: dir_prefix_def)

lemma basename_after_prefix:
  assumes "p = [] \<or> last p = CHR ''/''" "CHR ''/'' \<notin> set b"
  shows "basename (p @ b) = b"
proof -
  have "takeWhile (\<lambda>c. c \<noteq> CHR ''/'') (rev p) = []"
    using assms(1) by (cases p rule: rev_cases) auto
  moreover have "takeWhile (\<lambda>c. c \<noteq> CHR ''/'') (rev b @ rev p)
                 = rev b @ takeWhile (\<lambda>c. c \<noteq> CHR ''/'') (rev p)"
    using assms(2) by (intro takeWhile_append2) auto
  ultimately show ?thesis by (simp add: basename_def)
qed

lemma basename_path_join:
  "CHR ''/'' \<notin> set b \<Longrightarrow> basename (path_join a b) = b"
proof -
  assume b: "CHR ''/'' \<notin> set b"
  then have "b = [] \<or> hd b \<noteq> CHR ''/''" by (cases b) auto
  then have "path_join a b = dir_prefix a @ b" by (rule path_join_relative)
  with b dir_prefix_end[of a] show ?thesis by (simp add: basename_after_prefix)
qed

lemma image_name_inj: "image_name n = image_name m \<Longrightarrow> n = m"
  by (simp add: image_name_def str_nat_inj)

lemma image_name_no_sep: "CHR ''/'' \<notin> set (image_name n)"
  by (simp add: image_name_def str_nat_no_sep)

lemma image_path_eq: "path_join sdir (image_name n) = dir_prefix sdir @ image_name n"
  by (rule path_join_relative) (simp add: image_name_def)

lemma image_path_inj:
  "path_join sdir (image_name n) = path_join sdir (image_name m) \<Longrightarrow> n = m"
  by (simp add: image_path_eq image_name_inj)

lemma basename_image_path: "basename (path_join sdir (image_name n)) = image_name n"
  by (simp add: basename_path_join image_name_no_sep)

subsection \<open>The image generation loop\<close>

lemma save_image_batch_append:
  "save_image_batch sdir (xs @ ys) st = save_image_batch sdir ys (save_image_batch sdir xs st)"
proof (induction xs arbitrary: st)
  case Nil
  show ?case by simp
next
  case (Cons x xs)
  obtain w paths n where st: "st = (w, paths, n)" by (cases st)
  show ?case unfolding st by (simp add: Let_def Cons.IH)
qed

lemma save_images_concat:
  "save_images sdir batches st = save_image_batch sdir (concat batches) st"
  by (induction batches arbitrary: st) (simp_all add: save_image_batch_append)

lemma save_image_batch_paths:
  "save_image_batch sdir imgs (w, paths, n) = (w', paths', n') \<Longrightarrow>
   paths' = paths @ map (\<lambda>k. path_join sdir (image_name k)) [n..<n + length imgs]
   \<and> n' = n + length imgs"
proof (induction imgs arbitrary: w paths n)
  case Nil
  then show ?case by simp
next
  case (Cons img imgs)
  from Cons.prems have
    "save_image_batch sdir imgs
       (write_file (path_join sdir (image_name n)) (ImageJpeg img) w,
        paths @ [path_join sdir (image_name n)], Suc n) = (w', paths', n')"
    by (simp add: Let_def image_name_def)
  from Cons.IH[OF this]
  have "paths' = (paths @ [path_join sdir (image_name n)])
                  @ map (\<lambda>k. path_join sdir (image_name k)) [Suc n..<Suc n + length imgs]"
    and "n' = Suc n + length imgs" by simp_all
  moreover have "[n..<n + length (img # imgs)] = n # [Suc n..<n + length (img # imgs)]"
    by (rule upt_conv_Cons) simp
  ultimately show ?case by (simp del: upt_Suc)
qed

lemma save_image_batch_world:
  "save_image_batch sdir imgs (w, paths, n) = (w', paths', n') \<Longrightarrow>
   dirs w' = dirs w \<and> instantiated w' = instantiated w
   \<and> (\<forall>k < length imgs. files w' (path_join sdir (image_name (n + k))) = Some (ImageJpeg (imgs ! k)))
   \<and> (\<forall>p. (\<forall>k < length imgs. p \<noteq> path_join sdir (image_name (n + k))) \<longrightarrow> files w' p = files w p)"
proof (induction imgs arbitrary: w paths n)
  case Nil
  then show ?case by simp
next
  case (Cons img imgs)
  let ?p = "path_join sdir (image_name n)"
  let ?w1 = "write_file ?p (ImageJpeg img) w"
  from Cons.prems have run:
    "save_image_batch sdir imgs (?w1, paths @ [?p], Suc n) = (w', paths', n')"
    by (simp add: Let_def image_name_def)
  note IH = Cons.IH[OF run]
  have frame: "files w' q = files ?w1 q"
    if "\<forall>k < length imgs. q \<noteq> path_join sdir (image_name (Suc n + k))" for q
    using IH that by blast
  have first: "files w' ?p = Some (ImageJpeg img)"
  proof -
    have "\<forall>k < length imgs. ?p \<noteq> path_join sdir (image_name (Suc n + k))"
      using image_path_inj[of sdir n] by fastforce
    from frame[OF this] show ?thesis by (simp add: write_file_def)
  qed
  have saved: "files w' (path_join sdir (image_name (n + k))) = Some (ImageJpeg ((img # imgs) ! k))"
    if "k < length (img # imgs)" for k
  proof (cases k)
    case 0
    with first show ?thesis by simp
  next
    case (Suc k')
    with that IH show ?thesis by simp
  qed
  have other: "files w' q = files w q"
    if "\<forall>k < length (img # imgs). q \<noteq> path_join sdir (image_name (n + k))" for q
  proof -
    from that have "q \<noteq> ?p" by fastforce
    moreover from that have "\<forall>k < length imgs. q \<noteq> path_join sdir (image_name (Suc n + k))"
      by fastforce
    ultimately show ?thesis using frame[of q] by (simp add: write_file_def)
  qed
  from IH saved other show ?case by (simp add: write_file_def)
qed

text \<open>
  Claim C9. After the image generation loop, started with no paths and the counter at
  zero, the \<open>n\<close>-th generated image (counted across the batches in order) is in the file
  \<^verbatim>\<open>save_dir/image_n.jpg\<close>, which is the \<open>n\<close>-th entry of \<^verbatim>\<open>image_paths\<close>; the counter
  equals the number of paths, and no two paths are equal.
\<close>

theorem generated_images_saved_in_order:
  assumes "save_images sdir batches (w, [], 0) = (w', image_paths, num_generated_images)"
  shows "num_generated_images = length image_paths
       \<and> length image_paths = length (concat batches)
       \<and> (\<forall>n < length (concat batches).
             image_paths ! n = path_join sdir (''image_'' @ str_nat n @ ''.jpg'')
           \<and> files w' (image_paths ! n) = Some (ImageJpeg (concat batches ! n)))
       \<and> distinct image_paths"
proof -
  let ?imgs = "concat batches"
  from assms have run: "save_image_batch sdir ?imgs (w, [], 0) = (w', image_paths, num_generated_images)"
    by (simp add: save_images_concat)
  from save_image_batch_paths[OF run]
  have paths: "image_paths = map (\<lambda>k. path_join sdir (image_name k)) [0..<length ?imgs]"
    and num: "num_generated_images = length ?imgs" by simp_all
  from save_image_batch_world[OF run]
  have saved: "\<forall>k < length ?imgs. files w' (path_join sdir (image_name k)) = Some (ImageJpeg (?imgs ! k))"
    by simp
  have "inj_on (\<lambda>k. path_join sdir (image_name k)) (set [0..<length ?imgs])"
    by (rule inj_onI) (rule image_path_inj)
  then have "distinct image_paths" unfolding paths by (simp add: distinct_map)
  with paths num saved show ?thesis by (simp add: image_name_def)
qed


theorem generated_images_saved_in_order_witness:
  "\<exists>w' image_paths num.
     save_images ''out'' [[10, 11], [12]] (empty_world, [], 0) = (w', image_paths, num)
     \<and> num = 3 \<and> length image_paths = 3
     \<and> image_paths ! 2 = ''out/image_2.jpg''
     \<and> files w' ''out/image_2.jpg'' = Some (ImageJpeg 12)
     \<and> distinct image_paths"
proof -
  obtain w' ps n where r: "save_images ''out'' [[10, 11], [12]] (empty_world, [], 0) = (w', ps, n)"
    by (cases "save_images ''out'' [[10, 11], [12]] (empty_world, [], 0)")
  have two: "path_join ''out'' (''image_'' @ str_nat 2 @ ''.jpg'') = ''out/image_2.jpg''"
    by (simp add: path_join_def str_nat.simps digit_char_def)
  note res = generated_images_saved_in_order[OF r]
  from res have len: "n = length ps" "length ps = 3" "distinct ps" by simp_all
  from res have all: "\<forall>k < length (concat [[10, 11], [12::nat]]).
        ps ! k = path_join ''out'' (''image_'' @ str_nat k @ ''.jpg'')
      \<and> files w' (ps ! k) = Some (ImageJpeg (concat [[10, 11], [12]] ! k))"
    by blast
  have "2 < length (concat [[10, 11], [12::nat]])" by simp
  with all have p2: "ps ! 2 = path_join ''out'' (''image_'' @ str_nat 2 @ ''.jpg'')"
    and f2: "files w' (ps ! 2) = Some (ImageJpeg (concat [[10, 11], [12]] ! 2))"
    by blast+
  from p2 two have p2': "ps ! 2 = ''out/image_2.jpg''" by (rule trans)
  from f2 have f2': "files w' ''out/image_2.jpg'' = Some (ImageJpeg 12)"
    unfolding p2' by simp
  from len have "n = 3" by simp
  with r len p2' f2' show ?thesis by blast
qed

subsection \<open>The annotation files\<close>

lemma update_all_Nil: "update_all [] ann = ann"
  by (simp add: update_all_def)

lemma update_all_Cons: "update_all ((k, v) # kvs) ann = update_all kvs (AList.update k v ann)"
  by (simp add: update_all_def)

lemma update_all_snoc: "update_all (kvs @ [(k, v)]) ann = AList.update k v (update_all kvs ann)"
  by (simp add: update_all_def)

lemma det_entries_update_all: "det_entries zs ann = update_all (map det_item zs) ann"
  by (induction zs ann rule: det_entries.induct) (simp_all add: update_all_Nil update_all_Cons det_item_def)

lemma clf_entries_update_all: "clf_entries zs ann = update_all (map clf_item zs) ann"
  by (induction zs ann rule: clf_entries.induct) (simp_all add: update_all_Nil update_all_Cons clf_item_def)

lemma update_all_keys: "fst ` set (update_all kvs ann) = fst ` set ann \<union> fst ` set kvs"
proof (induction kvs rule: rev_induct)
  case Nil
  show ?case by (simp add: update_all_Nil)
next
  case (snoc kv kvs)
  obtain k v where kv: "kv = (k, v)" by (cases kv)
  have "fst ` set (AList.update k v (update_all kvs ann)) = insert k (fst ` set (update_all kvs ann))"
    using dom_update[of k v "update_all kvs ann"] by (simp add: dom_map_of_conv_image_fst)
  with snoc show ?case unfolding kv update_all_snoc by auto
qed

lemma update_all_distinct: "distinct (map fst ann) \<Longrightarrow> distinct (map fst (update_all kvs ann))"
proof (induction kvs rule: rev_induct)
  case Nil
  then show ?case by (simp add: update_all_Nil)
next
  case (snoc kv kvs)
  obtain k v where kv: "kv = (k, v)" by (cases kv)
  from snoc show ?case unfolding kv update_all_snoc by (simp add: distinct_update)
qed

lemma update_all_last_wins:
  assumes "i < length kvs"
      and "\<forall>j. i < j \<and> j < length kvs \<longrightarrow> fst (kvs ! j) \<noteq> fst (kvs ! i)"
  shows "map_of (update_all kvs ann) (fst (kvs ! i)) = Some (snd (kvs ! i))"
  using assms
proof (induction kvs rule: rev_induct)
  case Nil
  then show ?case by simp
next
  case (snoc kv kvs)
  obtain k v where kv: "kv = (k, v)" by (cases kv)
  show ?case
  proof (cases "i = length kvs")
    case True
    then show ?thesis unfolding kv update_all_snoc by (simp add: update_conv')
  next
    case False
    with snoc.prems(1) have i: "i < length kvs" by simp
    have later: "\<forall>j. i < j \<and> j < length kvs \<longrightarrow> fst (kvs ! j) \<noteq> fst (kvs ! i)"
    proof (intro allI impI)
      fix j assume j: "i < j \<and> j < length kvs"
      with snoc.prems(2)[rule_format, of j] i show "fst (kvs ! j) \<noteq> fst (kvs ! i)"
        by (simp add: nth_append)
    qed
    have "k \<noteq> fst (kvs ! i)"
      using snoc.prems(2)[rule_format, of "length kvs"] i by (simp add: nth_append kv)
    with snoc.IH[OF i later] i show ?thesis
      unfolding kv update_all_snoc by (simp add: update_conv' nth_append)
  qed
qed

lemma update_all_other:
  "k \<notin> fst ` set kvs \<Longrightarrow> map_of (update_all kvs ann) k = map_of ann k"
proof (induction kvs rule: rev_induct)
  case Nil
  show ?case by (simp add: update_all_Nil)
next
  case (snoc kv kvs)
  obtain k' v where kv: "kv = (k', v)" by (cases kv)
  from snoc show ?case unfolding kv update_all_snoc by (auto simp add: update_conv')
qed


lemma length_zip3: "length (zip3 xs ys zs) = min (length xs) (min (length ys) (length zs))"
  by (simp add: zip3_def)

lemma nth_zip3:
  "i < length (zip3 xs ys zs) \<Longrightarrow> zip3 xs ys zs ! i = (xs ! i, ys ! i, zs ! i)"
  by (simp add: zip3_def)

lemma map_fst_zip3: "map fst (zip3 xs ys zs) = take (length (zip3 xs ys zs)) xs"
  by (simp add: zip3_def map_fst_zip_take min.commute)

text \<open>What a dictionary holds after the entries \<open>kvs\<close> and then the class names were stored.\<close>

lemma annotations_shape:
  fixes kvs :: "(string \<times> jvalue) list" and cnames :: "pyval list"
  defines "ann \<equiv> AList.update ''class_names'' (ClassNames cnames) (update_all kvs [])"
  shows "map_of ann ''class_names'' = Some (ClassNames cnames)"
    and "distinct (map fst ann)"
    and "fst ` set ann = insert ''class_names'' (fst ` set kvs)"
    and "i < length kvs \<Longrightarrow> fst (kvs ! i) \<noteq> ''class_names'' \<Longrightarrow>
         \<forall>j. i < j \<and> j < length kvs \<longrightarrow> fst (kvs ! j) \<noteq> fst (kvs ! i) \<Longrightarrow>
         map_of ann (fst (kvs ! i)) = Some (snd (kvs ! i))"
proof -
  show "map_of ann ''class_names'' = Some (ClassNames cnames)"
    by (simp add: ann_def update_conv')
  have "distinct (map fst (update_all kvs []))" by (rule update_all_distinct) simp
  then show "distinct (map fst ann)" unfolding ann_def by (rule distinct_update)
  show "fst ` set ann = insert ''class_names'' (fst ` set kvs)"
    by (simp add: ann_def dom_update update_all_keys)
  assume "i < length kvs" "fst (kvs ! i) \<noteq> ''class_names''"
    "\<forall>j. i < j \<and> j < length kvs \<longrightarrow> fst (kvs ! j) \<noteq> fst (kvs ! i)"
  then show "map_of ann (fst (kvs ! i)) = Some (snd (kvs ! i))"
    using update_all_last_wins[of i kvs "[]"] by (simp add: ann_def update_conv')
qed

lemma entries_by_index:
  fixes kvs :: "(string \<times> jvalue) list" and key :: "nat \<Rightarrow> string" and val :: "nat \<Rightarrow> jvalue"
  assumes ann: "ann = AList.update ''class_names'' (ClassNames cnames) (update_all kvs [])"
      and len: "length kvs = n"
      and nth: "\<And>i. i < n \<Longrightarrow> kvs ! i = (key i, val i)"
      and i: "i < n"
      and c: "key i \<noteq> ''class_names''"
      and l: "\<forall>j. i < j \<and> j < n \<longrightarrow> key j \<noteq> key i"
  shows "map_of ann (key i) = Some (val i)"
proof -
  have "\<forall>j. i < j \<and> j < length kvs \<longrightarrow> fst (kvs ! j) \<noteq> fst (kvs ! i)"
  proof (intro allI impI)
    fix j assume j: "i < j \<and> j < length kvs"
    with len have "j < n" by simp
    with nth[OF this] nth[OF i] l j show "fst (kvs ! j) \<noteq> fst (kvs ! i)" by simp
  qed
  moreover have "fst (kvs ! i) \<noteq> ''class_names''" using c nth[OF i] by simp
  moreover have "i < length kvs" using i len by simp
  ultimately have "map_of ann (fst (kvs ! i)) = Some (snd (kvs ! i))"
    unfolding ann by (intro annotations_shape(4))
  then show ?thesis using nth[OF i] by simp
qed

lemma det_annotations_content:
  fixes image_paths boxes_list labels_list cnames
  defines "n \<equiv> min (length image_paths) (min (length boxes_list) (length labels_list))"
  defines "ann \<equiv> det_annotations image_paths boxes_list labels_list cnames"
  shows "map_of ann ''class_names'' = Some (ClassNames cnames)
       \<and> distinct (map fst ann)
       \<and> fst ` set ann = insert ''class_names'' (basename ` set (take n image_paths))
       \<and> (\<forall>i < n. basename (image_paths ! i) \<noteq> ''class_names''
               \<and> (\<forall>j. i < j \<and> j < n \<longrightarrow> basename (image_paths ! j) \<noteq> basename (image_paths ! i))
             \<longrightarrow> map_of ann (basename (image_paths ! i))
                 = Some (ImageEntry (DetEntry (tolist (boxes_list ! i)) (tolist (labels_list ! i)))))"
proof -
  define zs where "zs = zip3 image_paths boxes_list labels_list"
  define kvs where "kvs = map det_item zs"
  have len: "length kvs = n" by (simp add: kvs_def zs_def n_def length_zip3)
  have nth: "kvs ! i = (basename (image_paths ! i),
               ImageEntry (DetEntry (tolist (boxes_list ! i)) (tolist (labels_list ! i))))"
    if "i < n" for i
    using that by (simp add: kvs_def zs_def n_def length_zip3 nth_zip3 det_item_def)
  have "map fst kvs = map basename (map fst zs)"
    by (simp add: kvs_def det_item_def case_prod_unfold comp_def)
  moreover have "map fst zs = take n image_paths"
    using map_fst_zip3[of image_paths boxes_list labels_list]
    by (simp add: zs_def n_def length_zip3)
  ultimately have "set (map fst kvs) = set (map basename (take n image_paths))" by simp
  then have keys: "fst ` set kvs = basename ` set (take n image_paths)" by simp
  have ann: "ann = AList.update ''class_names'' (ClassNames cnames) (update_all kvs [])"
    by (simp add: ann_def det_annotations_def det_entries_update_all kvs_def zs_def)
  have "map_of ann ''class_names'' = Some (ClassNames cnames)"
    and "distinct (map fst ann)"
    and "fst ` set ann = insert ''class_names'' (basename ` set (take n image_paths))"
    unfolding ann by (simp_all only: annotations_shape(1,2,3) keys)
  moreover have "\<forall>i < n. basename (image_paths ! i) \<noteq> ''class_names''
               \<and> (\<forall>j. i < j \<and> j < n \<longrightarrow> basename (image_paths ! j) \<noteq> basename (image_paths ! i))
             \<longrightarrow> map_of ann (basename (image_paths ! i))
                 = Some (ImageEntry (DetEntry (tolist (boxes_list ! i)) (tolist (labels_list ! i))))"
    using entries_by_index[OF ann len nth]
    by blast
  ultimately show ?thesis by blast
qed

lemma clf_annotations_content:
  fixes image_paths labels_list cnames
  defines "n \<equiv> min (length image_paths) (length labels_list)"
  defines "ann \<equiv> clf_annotations image_paths labels_list cnames"
  shows "map_of ann ''class_names'' = Some (ClassNames cnames)
       \<and> distinct (map fst ann)
       \<and> fst ` set ann = insert ''class_names'' (basename ` set (take n image_paths))
       \<and> (\<forall>i < n. basename (image_paths ! i) \<noteq> ''class_names''
               \<and> (\<forall>j. i < j \<and> j < n \<longrightarrow> basename (image_paths ! j) \<noteq> basename (image_paths ! i))
             \<longrightarrow> map_of ann (basename (image_paths ! i))
                 = Some (ImageEntry (ClfEntry (tolist (labels_list ! i)))))"
proof -
  define zs where "zs = zip image_paths labels_list"
  define kvs where "kvs = map clf_item zs"
  have len: "length kvs = n" by (simp add: kvs_def zs_def n_def)
  have nth: "kvs ! i = (basename (image_paths ! i), ImageEntry (ClfEntry (tolist (labels_list ! i))))"
    if "i < n" for i
    using that by (simp add: kvs_def zs_def n_def clf_item_def)
  have "map fst kvs = map basename (map fst zs)"
    by (simp add: kvs_def clf_item_def case_prod_unfold comp_def)
  moreover have "map fst zs = take n image_paths"
    by (simp add: zs_def n_def map_fst_zip_take)
  ultimately have "set (map fst kvs) = set (map basename (take n image_paths))" by simp
  then have keys: "fst ` set kvs = basename ` set (take n image_paths)" by simp
  have ann: "ann = AList.update ''class_names'' (ClassNames cnames) (update_all kvs [])"
    by (simp add: ann_def clf_annotations_def clf_entries_update_all kvs_def zs_def)
  have "map_of ann ''class_names'' = Some (ClassNames cnames)"
    and "distinct (map fst ann)"
    and "fst ` set ann = insert ''class_names'' (basename ` set (take n image_paths))"
    unfolding ann by (simp_all only: annotations_shape(1,2,3) keys)
  moreover have "\<forall>i < n. basename (image_paths ! i) \<noteq> ''class_names''
               \<and> (\<forall>j. i < j \<and> j < n \<longrightarrow> basename (image_paths ! j) \<noteq> basename (image_paths ! i))
             \<longrightarrow> map_of ann (basename (image_paths ! i))
                 = Some (ImageEntry (ClfEntry (tolist (labels_list ! i))))"
    using entries_by_index[OF ann len nth]
    by blast
  ultimately show ?thesis by blast
qed


text \<open>
  Claim C10, as amended. Both functions write, to \<^verbatim>\<open>save_dir/file_name\<close>, an object in
  which \<^verbatim>\<open>class_names\<close> is mapped to the full list of class names and whose other keys
  are the base names of the image paths that \<^verbatim>\<open>zip\<close> pairs with annotation arrays,
  that is of the first \<open>n\<close> paths, \<open>n\<close> the length of the shortest argument list; no key
  occurs twice. The entry of a base name other than \<^verbatim>\<open>class_names\<close> holds the arrays,
  as lists, of the last of these paths with that base name.
\<close>

theorem annotation_files_content:
  "(let n = min (length image_paths) (min (length boxes_list) (length labels_list));
        ann = det_annotations image_paths boxes_list labels_list cnames
    in files (save_det_annotations_to_json image_paths boxes_list labels_list cnames sdir
                file_name w) (path_join sdir file_name) = Some (AnnotationsJson ann)
     \<and> map_of ann ''class_names'' = Some (ClassNames cnames)
     \<and> distinct (map fst ann)
     \<and> fst ` set ann = insert ''class_names'' (basename ` set (take n image_paths))
     \<and> (\<forall>i < n. basename (image_paths ! i) \<noteq> ''class_names''
             \<and> (\<forall>j. i < j \<and> j < n \<longrightarrow> basename (image_paths ! j) \<noteq> basename (image_paths ! i))
           \<longrightarrow> map_of ann (basename (image_paths ! i))
               = Some (ImageEntry (DetEntry (tolist (boxes_list ! i)) (tolist (labels_list ! i))))))
 \<and> (let n = min (length image_paths) (length clf_labels_list);
        ann = clf_annotations image_paths clf_labels_list cnames
    in files (save_clf_annotations_to_json image_paths clf_labels_list cnames sdir
                file_name (w :: 'img world)) (path_join sdir file_name) = Some (AnnotationsJson ann)
     \<and> map_of ann ''class_names'' = Some (ClassNames cnames)
     \<and> distinct (map fst ann)
     \<and> fst ` set ann = insert ''class_names'' (basename ` set (take n image_paths))
     \<and> (\<forall>i < n. basename (image_paths ! i) \<noteq> ''class_names''
             \<and> (\<forall>j. i < j \<and> j < n \<longrightarrow> basename (image_paths ! j) \<noteq> basename (image_paths ! i))
           \<longrightarrow> map_of ann (basename (image_paths ! i))
               = Some (ImageEntry (ClfEntry (tolist (clf_labels_list ! i))))))"
proof -
  have det_file: "files (save_det_annotations_to_json image_paths boxes_list labels_list cnames
        sdir file_name w) (path_join sdir file_name)
      = Some (AnnotationsJson (det_annotations image_paths boxes_list labels_list cnames))"
    by (simp add: save_det_annotations_to_json_def write_file_def)
  have clf_file: "files (save_clf_annotations_to_json image_paths clf_labels_list cnames
        sdir file_name w) (path_join sdir file_name)
      = Some (AnnotationsJson (clf_annotations image_paths clf_labels_list cnames))"
    by (simp add: save_clf_annotations_to_json_def write_file_def)
  show ?thesis
    unfolding Let_def
    using det_file clf_file
      det_annotations_content[of image_paths boxes_list labels_list cnames]
      clf_annotations_content[of image_paths clf_labels_list cnames]
    by blast
qed

theorem annotation_files_content_witness:
  "map_of (det_annotations [''out/image_0.jpg'', ''out/image_1.jpg'']
             [NdArray [(0, 0, 1, 1)], NdArray []] [NdArray [2], NdArray []] [PStr ''bear''])
          ''image_0.jpg'' = Some (ImageEntry (DetEntry [(0, 0, 1, 1)] [2]))
 \<and> map_of (clf_annotations [''out/image_0.jpg'', ''out/image_1.jpg'']
             [NdArray [0], NdArray [0, 1]] [PStr ''bear''])
          ''image_1.jpg'' = Some (ImageEntry (ClfEntry [0, 1]))"
proof -
  define ips where "ips = [''out/image_0.jpg'', ''out/image_1.jpg'']"
  define bl :: "box ndarray list" where "bl = [NdArray [(0, 0, 1, 1)], NdArray []]"
  define ll :: "int ndarray list" where "ll = [NdArray [2], NdArray []]"
  define cl :: "nat ndarray list" where "cl = [NdArray [0], NdArray [0, 1]]"
  define cn where "cn = [PStr ''bear'']"
  have b0: "basename (ips ! 0) = ''image_0.jpg''" and b1: "basename (ips ! 1) = ''image_1.jpg''"
    by (simp_all add: ips_def basename_def)
  have nd: "min (length ips) (min (length bl) (length ll)) = 2"
    and nc: "min (length ips) (length cl) = 2"
    by (simp_all add: ips_def bl_def ll_def cl_def)
  have two: "j = 1" if "0 < j \<and> j < 2" for j :: nat using that by simp
  note T = annotation_files_content[of ips bl ll cn "''out''" "''annotations.json''"
      empty_world cl, unfolded Let_def nd nc]
  note D = T[THEN conjunct1, THEN conjunct2, THEN conjunct2, THEN conjunct2, THEN conjunct2,
      rule_format, of 0]
  note C = T[THEN conjunct2, THEN conjunct2, THEN conjunct2, THEN conjunct2, THEN conjunct2,
      rule_format, of 1]
  have "\<forall>j. 0 < j \<and> j < 2 \<longrightarrow> basename (ips ! j) \<noteq> basename (ips ! 0)"
  proof (intro allI impI)
    fix j :: nat assume "0 < j \<and> j < 2"
    then have "j = 1" by (rule two)
    with b0 b1 show "basename (ips ! j) \<noteq> basename (ips ! 0)" by simp
  qed
  with D b0 have "map_of (det_annotations ips bl ll cn) ''image_0.jpg''
      = Some (ImageEntry (DetEntry (tolist (bl ! 0)) (tolist (ll ! 0))))" by simp
  moreover have "\<forall>j. 1 < j \<and> j < 2 \<longrightarrow> basename (ips ! j) \<noteq> basename (ips ! 1)"
    by auto
  with C b1 have "map_of (clf_annotations ips cl cn) ''image_1.jpg''
      = Some (ImageEntry (ClfEntry (tolist (cl ! 1))))" by simp
  ultimately show ?thesis
    unfolding ips_def bl_def ll_def cl_def cn_def by simp
qed

text \<open>
  Claim C10 as stated asks for an entry per base name of the given image paths, for all
  inputs. An image path without annotation arrays at its position gets none: the object
  then holds the class names only.
\<close>

theorem annotation_entry_per_path_counterexample:
  "basename ''out/image_0.jpg'' = ''image_0.jpg''
 \<and> clf_annotations [''out/image_0.jpg''] [] [PStr ''bear'']
     = [(''class_names'', ClassNames [PStr ''bear''])]
 \<and> det_annotations [''out/image_0.jpg''] [NdArray [(0, 0, 1, 1)]] [] [PStr ''bear'']
     = [(''class_names'', ClassNames [PStr ''bear''])]"
  by (simp add: basename_def clf_annotations_def det_annotations_def zip3_def)

subsection \<open>Classification labels\<close>

lemma first_index_least:
  "x \<in> set xs \<Longrightarrow>
   first_index xs x < length xs \<and> xs ! first_index xs x = x
   \<and> (\<forall>k < first_index xs x. xs ! k \<noteq> x)"
proof (induction xs)
  case Nil
  then show ?case by simp
next
  case (Cons y ys)
  show ?case
  proof (cases "y = x")
    case True
    then show ?thesis by (simp add: first_index_def)
  next
    case False
    with Cons have IH: "first_index ys x < length ys \<and> ys ! first_index ys x = x
        \<and> (\<forall>k < first_index ys x. ys ! k \<noteq> x)" by simp
    have fi: "first_index (y # ys) x = Suc (first_index ys x)"
      using False by (simp add: first_index_def)
    show ?thesis unfolding fi using IH False by (auto simp: nth_Cons split: nat.splits)
  qed
qed

lemma py_index_first: "x \<in> set xs \<Longrightarrow> py_index xs x = Inr (first_index xs x)"
  by (induction xs) (auto simp: first_index_def bind_res_def)

lemma py_index_missing: "x \<notin> set xs \<Longrightarrow> \<exists>msg. py_index xs x = Inl (ValueError msg)"
  by (induction xs) (auto simp: bind_res_def)

lemma map_res_total:
  "(\<And>x. x \<in> set xs \<Longrightarrow> f x = Inr (g x)) \<Longrightarrow> map_res f xs = Inr (map g xs)"
  by (induction xs) (simp_all add: bind_res_def)

lemma np_unique_sorted_set: "np_unique xs = NdArray (sorted_list_of_set (set xs))"
  by (simp add: np_unique_def sorted_list_of_set_sort_remdups)

lemma clf_labels_value:
  assumes "set objs \<subseteq> set cnames"
  shows "clf_labels cnames objs = Inr (NdArray (sorted_distinct_indices cnames objs))"
proof -
  have "map_res (py_index cnames) objs = Inr (map (first_index cnames) objs)"
    using assms by (intro map_res_total py_index_first) auto
  then show ?thesis
    by (simp add: clf_labels_def bind_res_def np_unique_sorted_set sorted_distinct_indices_def)
qed


lemma classification_entries:
  assumes objs: "\<forall>p \<in> set generated_prompts. set (fst p) \<subseteq> set (class_names a)"
      and names: "distinct (map basename image_paths)"
                 "''class_names'' \<notin> basename ` set image_paths"
  shows "\<exists>w' ann. classification_stage a generated_prompts image_paths w = Inr w'
           \<and> files w' (path_join (save_dir a) ''annotations.json'') = Some (AnnotationsJson ann)
           \<and> (\<forall>i < min (length image_paths) (length generated_prompts).
                 map_of ann (basename (image_paths ! i))
                 = Some (ImageEntry (ClfEntry
                     (sorted_distinct_indices (class_names a) (fst (generated_prompts ! i))))))"
proof -
  let ?labels = "\<lambda>objs. NdArray (sorted_distinct_indices (class_names a) objs)"
  let ?labels_list = "map ?labels (map fst generated_prompts)"
  let ?ann = "clf_annotations image_paths ?labels_list (class_names a)"
  let ?w' = "save_clf_annotations_to_json image_paths ?labels_list (class_names a) (save_dir a)
               ''annotations.json'' w"
  let ?n = "min (length image_paths) (length generated_prompts)"
  have "map_res (clf_labels (class_names a)) (map fst generated_prompts) = Inr ?labels_list"
    using objs by (intro map_res_total clf_labels_value) auto
  then have run: "classification_stage a generated_prompts image_paths w = Inr ?w'"
    by (simp add: classification_stage_def bind_res_def)
  have written: "files ?w' (path_join (save_dir a) ''annotations.json'') = Some (AnnotationsJson ?ann)"
    by (simp add: save_clf_annotations_to_json_def write_file_def)
  have n: "min (length image_paths) (length ?labels_list) = ?n" by simp
  note content = clf_annotations_content[of image_paths ?labels_list "class_names a",
      unfolded n, THEN conjunct2, THEN conjunct2, THEN conjunct2, rule_format]
  have entry: "map_of ?ann (basename (image_paths ! i))
        = Some (ImageEntry (ClfEntry
            (sorted_distinct_indices (class_names a) (fst (generated_prompts ! i)))))"
    if i: "i < ?n" for i
  proof -
    have "basename (image_paths ! i) \<noteq> ''class_names''"
      using names(2) i by (metis image_eqI min_less_iff_conj nth_mem)
    moreover have "\<forall>j. i < j \<and> j < ?n \<longrightarrow> basename (image_paths ! j) \<noteq> basename (image_paths ! i)"
      using names(1) i by (auto simp: distinct_conv_nth)
    ultimately have "map_of ?ann (basename (image_paths ! i))
        = Some (ImageEntry (ClfEntry (tolist (?labels_list ! i))))"
      using i by (intro content) simp_all
    then show ?thesis using i by simp
  qed
  from run written entry show ?thesis by blast
qed


lemma image_paths_basenames:
  "map basename (map (\<lambda>n. path_join sdir (''image_'' @ str_nat n @ ''.jpg'')) [0..<N])
   = map image_name [0..<N]"
  using basename_image_path[of sdir] by (simp add: image_name_def)

lemma image_names_distinct: "distinct (map image_name [0..<N])"
proof -
  have "inj_on image_name (set [0..<N])" by (rule inj_onI) (rule image_name_inj)
  then show ?thesis by (simp add: distinct_map)
qed

lemma image_name_not_class_names: "image_name n \<noteq> ''class_names''"
  by (simp add: image_name_def)

text \<open>
  Claim C8. In the classification branch, when every object of every generated prompt
  occurs in \<^verbatim>\<open>class_names\<close> and the image paths are those of the image loop, the stage
  returns, and the labels written under \<^verbatim>\<open>image_i.jpg\<close> are the sorted distinct
  first-occurrence indices of the objects of the \<open>i\<close>-th prompt, for every \<open>i\<close> that is
  both an image and a prompt.
\<close>

theorem classification_labels_from_prompts:
  assumes objs: "\<forall>p \<in> set generated_prompts. set (fst p) \<subseteq> set (class_names a)"
      and paths: "image_paths
                  = map (\<lambda>n. path_join (save_dir a) (''image_'' @ str_nat n @ ''.jpg'')) [0..<N]"
  shows "\<exists>w' ann. classification_stage a generated_prompts image_paths w = Inr w'
           \<and> files w' (path_join (save_dir a) ''annotations.json'') = Some (AnnotationsJson ann)
           \<and> (\<forall>i < min N (length generated_prompts).
                 map_of ann (''image_'' @ str_nat i @ ''.jpg'')
                 = Some (ImageEntry (ClfEntry
                     (sorted_distinct_indices (class_names a) (fst (generated_prompts ! i))))))"
proof -
  have bn: "map basename image_paths = map image_name [0..<N]"
    unfolding paths by (rule image_paths_basenames)
  have d: "distinct (map basename image_paths)"
    unfolding bn by (rule image_names_distinct)
  have c: "''class_names'' \<notin> basename ` set image_paths"
    using image_name_not_class_names
    by (metis (no_types, lifting) bn imageE list.set_map)
  have len: "length image_paths = N" by (simp add: paths)
  have nth: "basename (image_paths ! i) = ''image_'' @ str_nat i @ ''.jpg''" if "i < N" for i
  proof -
    have "map basename image_paths ! i = map image_name [0..<N] ! i" by (simp only: bn)
    with that len show ?thesis by (simp add: image_name_def)
  qed
  from classification_entries[OF objs d c, of w]
  obtain w' ann where run: "classification_stage a generated_prompts image_paths w = Inr w'"
    and written: "files w' (path_join (save_dir a) ''annotations.json'') = Some (AnnotationsJson ann)"
    and entry: "\<forall>i < min (length image_paths) (length generated_prompts).
                 map_of ann (basename (image_paths ! i))
                 = Some (ImageEntry (ClfEntry
                     (sorted_distinct_indices (class_names a) (fst (generated_prompts ! i)))))"
    by blast
  have "\<forall>i < min N (length generated_prompts).
          map_of ann (''image_'' @ str_nat i @ ''.jpg'')
          = Some (ImageEntry (ClfEntry
               (sorted_distinct_indices (class_names a) (fst (generated_prompts ! i)))))"
    using entry nth len by (metis min_less_iff_conj)
  with run written show ?thesis by blast
qed

theorem classification_labels_from_prompts_witness:
  "\<exists>w' ann.
     classification_stage default_args
       [([PStr ''person'', PStr ''bear'', PStr ''person''], ''a person and a bear''),
        ([PStr ''bird''], ''a bird'')]
       [''generated_dataset/image_0.jpg'', ''generated_dataset/image_1.jpg'']
       empty_world = Inr w'
   \<and> files w' ''generated_dataset/annotations.json'' = Some (AnnotationsJson ann)
   \<and> map_of ann ''image_0.jpg'' = Some (ImageEntry (ClfEntry [0, 3]))"
proof -
  define gp :: "prompt list" where
    "gp = [([PStr ''person'', PStr ''bear'', PStr ''person''], ''a person and a bear''),
           ([PStr ''bird''], ''a bird'')]"
  define ips where "ips = [''generated_dataset/image_0.jpg'', ''generated_dataset/image_1.jpg'']"
  have h1: "\<forall>p \<in> set gp. set (fst p) \<subseteq> set (class_names default_args)"
    by (simp add: gp_def default_args_def)
  have s0: "str_nat 0 = ''0''" and s1: "str_nat 1 = ''1''"
    by (simp_all add: str_nat.simps digit_char_def)
  have "[0..<2] = [0, 1]" by (simp add: upt_rec)
  then have h2: "ips = map (\<lambda>n. path_join (save_dir default_args)
                          (''image_'' @ str_nat n @ ''.jpg'')) [0..<2]"
    using s0 s1 by (simp add: ips_def default_args_def path_join_def)
  from classification_labels_from_prompts[OF h1 h2, of empty_world]
  obtain w' ann where run: "classification_stage default_args gp ips empty_world = Inr w'"
    and written: "files w' (path_join (save_dir default_args) ''annotations.json'')
                  = Some (AnnotationsJson ann)"
    and entry: "\<forall>i < min 2 (length gp).
                 map_of ann (''image_'' @ str_nat i @ ''.jpg'')
                 = Some (ImageEntry (ClfEntry
                     (sorted_distinct_indices (class_names default_args) (fst (gp ! i)))))"
    by blast
  have lt: "0 < min 2 (length gp)" by (simp add: gp_def)
  have v0: "sorted_distinct_indices (class_names default_args) (fst (gp ! 0)) = [0, 3]"
    unfolding gp_def default_args_def by code_simp
  have p: "path_join (save_dir default_args) ''annotations.json''
           = ''generated_dataset/annotations.json''"
    by (simp add: path_join_def default_args_def)
  from entry lt have "map_of ann (''image_'' @ str_nat 0 @ ''.jpg'')
      = Some (ImageEntry (ClfEntry
           (sorted_distinct_indices (class_names default_args) (fst (gp ! 0)))))"
    by blast
  then have "map_of ann ''image_0.jpg'' = Some (ImageEntry (ClfEntry [0, 3]))"
    unfolding v0 s0 by simp
  with run written[unfolded p] show ?thesis unfolding gp_def ips_def by blast
qed

subsection \<open>Stages of main\<close>

lemma bind_res_Inr:
  "bind_res m f = Inr y \<Longrightarrow> \<exists>x. m = Inr x \<and> f x = Inr y"
  by (cases m) (simp_all add: bind_res_def)

lemma bind_res_simps:
  "bind_res (Inr x) f = f x" "bind_res (Inl err) f = Inl err"
  by (simp_all add: bind_res_def)

lemma makedirs_Inr:
  "makedirs e p w = Inr w' \<Longrightarrow> files w' = files w \<and> instantiated w' = instantiated w"
  by (auto simp: makedirs_def split: if_splits)

lemma check_save_dir_Inr:
  "check_save_dir e w a = Inr w' \<Longrightarrow> files w' = files w \<and> instantiated w' = instantiated w"
  by (auto simp: check_save_dir_def raise_ValueError_def dest: makedirs_Inr
           split: if_splits sum.splits)

lemma check_args_Inr:
  assumes "check_args e w a = Inr (a', w')"
  shows "a' = a \<and> files w' = files w \<and> instantiated w' = instantiated w
       \<and> 1 \<le> batch_size_annotation a"
proof -
  from assms obtain w1 where w1: "check_save_dir e w a = Inr w1"
    unfolding check_args_def by (auto dest: bind_res_Inr)
  from assms have "a' = a \<and> w' = w1 \<and> 1 \<le> batch_size_annotation a"
    unfolding check_args_def w1 bind_res_simps raise_ValueError_def
    by (simp split: if_splits)
  with check_save_dir_Inr[OF w1] show ?thesis by simp
qed

lemma ensure_dir_Inr:
  "ensure_dir e p w = Inr w' \<Longrightarrow> files w' = files w \<and> instantiated w' = instantiated w"
  by (auto simp: ensure_dir_def dest: makedirs_Inr split: if_splits)

lemma prompt_stage_Inr:
  assumes "prompt_stage m a w = Inr (gp, w')"
  shows "\<exists>c. dict_getitem prompt_generators (prompt_generator a) = Inr c
           \<and> gp = generate_prompts m (new_prompt_generator c a)
           \<and> w' = write_file (path_join (save_dir a) ''prompts.json'') (PromptsJson gp)
                    (instantiate c w)"
  using assms unfolding prompt_stage_def
  by (auto dest!: bind_res_Inr simp: Let_def)

lemma synonym_stage_Inr:
  assumes "synonym_stage m a w = Inr (syn, w')"
  shows "(synonym_generator a = ''none'' \<and> syn = None \<and> w' = w)
       \<or> (synonym_generator a \<noteq> ''none''
          \<and> (\<exists>c sd. dict_getitem synonym_generators (synonym_generator a) = Inr c
                \<and> sd = generate_synonyms_for_list m (new_synonym_generator c a) (class_names a)
                \<and> syn = Some sd
                \<and> w' = write_file (path_join (save_dir a) ''synonyms.json'') (SynonymsJson sd)
                         (instantiate c w)))"
  using assms unfolding synonym_stage_def
  by (auto dest!: bind_res_Inr simp: Let_def split: if_splits)

lemma image_stage_Inr:
  assumes "image_stage m a gp w = Inr ((ips, num), w')"
  shows "\<exists>c. dict_getitem image_generators (image_generator a) = Inr c
           \<and> save_images (save_dir a)
                (generate_images m (new_image_generator c a) (map snd gp) (map fst gp))
                (instantiate c w, [], 0) = (w', ips, num)"
  using assms unfolding image_stage_def
  by (auto dest!: bind_res_Inr simp: Let_def split: prod.splits)

lemma classification_stage_Inr:
  assumes "classification_stage a gp ips w = Inr w'"
  shows "\<exists>labels_list. map_res (clf_labels (class_names a)) (map fst gp) = Inr labels_list
           \<and> w' = save_clf_annotations_to_json ips labels_list (class_names a) (save_dir a)
                    ''annotations.json'' w"
  using assms unfolding classification_stage_def
  by (auto dest!: bind_res_Inr)

lemma detection_stage_Inr:
  assumes "detection_stage m a syn gp bbox_dir ips w = Inr w'"
  shows "\<exists>c batches w2 bl sl ll.
           dict_getitem annotators (image_annotator a) = Inr c
         \<and> image_batches ips (batch_size_annotation a) = Inr batches
         \<and> annotate_batches m (new_annotator c a) a syn gp bbox_dir 0 batches
              (instantiate c w, [], [], []) = Inr (w2, bl, sl, ll)
         \<and> w' = save_det_annotations_to_json ips bl ll (class_names a) (save_dir a)
                  ''annotations.json'' w2"
  using assms unfolding detection_stage_def
  by (auto dest!: bind_res_Inr simp: Let_def split: prod.splits)

lemma main_Inr:
  assumes "main e m a w0 = Inr wn"
  shows "\<exists>w1 w2 w3 gp w5 syn w6 ips num w7.
           check_args e w0 a = Inr (a, w1)
         \<and> ensure_dir e (save_dir a) w1 = Inr w2
         \<and> ensure_dir e (path_join (save_dir a) ''bboxes_visualization'') w2 = Inr w3
         \<and> prompt_stage m a
              (write_file (path_join (save_dir a) ''generation_args.json'') (ArgsJson a) w3)
            = Inr (gp, w5)
         \<and> synonym_stage m a w5 = Inr (syn, w6)
         \<and> image_stage m a gp w6 = Inr ((ips, num), w7)
         \<and> (if task a = ''classification'' then classification_stage a gp ips w7
             else detection_stage m a syn gp (path_join (save_dir a) ''bboxes_visualization'')
                    ips w7) = Inr wn"
proof -
  from assms obtain a' w1 where c: "check_args e w0 a = Inr (a', w1)"
    unfolding main_def by (auto dest!: bind_res_Inr)
  from check_args_Inr[OF c] have a': "a' = a" by simp
  from assms show ?thesis
    unfolding main_def c a' bind_res_simps
    by (auto dest!: bind_res_Inr simp: Let_def split: prod.splits if_splits)
qed

subsection \<open>The detection loops\<close>

lemma str_nat_digits: "set (str_nat n) \<subseteq> set ''0123456789''"
proof (induction n rule: str_nat.induct)
  case (1 n)
  have d: "digit_char k \<in> set ''0123456789''" if "k < 10" for k
    using digit_char_cases[OF that] by (auto simp: digit_char_def)
  show ?case
  proof (cases "n < 10")
    case True
    then show ?thesis using d[of n] by (subst str_nat.simps) simp
  next
    case False
    with 1 show ?thesis using d[of "n mod 10"] by (subst str_nat.simps) simp
  qed
qed

lemma str_int_inj: "str_int i = str_int j \<Longrightarrow> i = j"
proof -
  assume eq: "str_int i = str_int j"
  have nm: "str_nat n \<noteq> CHR ''-'' # s" for n s
  proof
    assume "str_nat n = CHR ''-'' # s"
    then have "CHR ''-'' \<in> set (str_nat n)" by simp
    with str_nat_digits[of n] show False by auto
  qed
  show ?thesis
  proof (cases "i < 0")
    case i: True
    show ?thesis
    proof (cases "j < 0")
      case True
      with i eq have "nat (- i) = nat (- j)" by (simp add: str_int_def str_nat_inj)
      with i True show ?thesis by simp
    next
      case False
      with i eq nm[of "nat j" "str_nat (nat (- i))"] show ?thesis by (simp add: str_int_def)
    qed
  next
    case i: False
    show ?thesis
    proof (cases "j < 0")
      case True
      with i eq nm[of "nat i" "str_nat (nat (- j))"] show ?thesis by (simp add: str_int_def)
    next
      case False
      with i eq have "nat i = nat j" by (simp add: str_int_def str_nat_inj)
      with i False show ?thesis by simp
    qed
  qed
qed

lemma str_int_nat: "str_int (int n) = str_nat n"
  by (simp add: str_int_def)

lemma bbox_path_eq: "path_join bd (bbox_name k) = dir_prefix bd @ bbox_name k"
  by (rule path_join_relative) (simp add: bbox_name_def)

lemma bbox_name_inj: "bbox_name k = bbox_name k' \<Longrightarrow> k = k'"
  by (simp add: bbox_name_def str_int_inj)

lemma bbox_path_inj: "path_join bd (bbox_name k) = path_join bd (bbox_name k') \<Longrightarrow> k = k'"
  by (simp add: bbox_path_eq bbox_name_inj)

lemma py_getitem_nat:
  "py_getitem xs (int j) = Inr x \<Longrightarrow> j < length xs \<and> x = xs ! j"
  by (auto simp: py_getitem_def split: if_splits)

lemma draw_boxes_Inr:
  "draw_boxes cnames gp k zs (fig, labels) = Inr (fig', labels') \<Longrightarrow>
   labels' = labels @ map (\<lambda>z. snd (snd z)) zs
   \<and> fig_patches fig' = fig_patches fig @ map rect_of zs
   \<and> fig_image fig' = fig_image fig"
proof (induction zs arbitrary: fig labels)
  case Nil
  then show ?case by simp
next
  case (Cons z zs)
  obtain x1 y1 x2 y2 score label where z: "z = ((x1, y1, x2, y2), score, label)"
    by (cases z) auto
  let ?rect = "\<lparr> rect_xy = (x1, y1), rect_width = x2 - x1, rect_height = y2 - y1 \<rparr>"
  from Cons.prems obtain fig2 where
    step: "draw_boxes cnames gp k zs (fig2, labels @ [label]) = Inr (fig', labels')"
    and p2: "fig_patches fig2 = fig_patches fig @ [?rect]"
    and i2: "fig_image fig2 = fig_image fig"
    unfolding z by (auto simp: Let_def dest!: bind_res_Inr)
  from Cons.IH[OF step] p2 i2 show ?case by (simp add: z rect_of_def)
qed

lemma annotate_images_Inr:
  assumes "annotate_images cnames gp bd bs i bb sb lb j imgs (w, ll) = Inr (w', ll')"
  shows "ll' = ll @ map (\<lambda>t. image_labels (bb, sb, lb) (j + t)) [0..<length imgs]
       \<and> dirs w' = dirs w \<and> instantiated w' = instantiated w
       \<and> (\<forall>t < length imgs. \<exists>fig.
             files w' (path_join bd (bbox_name (int i * bs + int (j + t)))) = Some (FigureJpeg fig)
           \<and> fig_image fig = imgs ! t
           \<and> fig_patches fig = map rect_of (paired (bb, sb, lb) (j + t)))
       \<and> (\<forall>p. (\<forall>t < length imgs. p \<noteq> path_join bd (bbox_name (int i * bs + int (j + t))))
              \<longrightarrow> files w' p = files w p)
       \<and> (imgs \<noteq> [] \<longrightarrow> j + length imgs \<le> length bb)"
  using assms
proof (induction imgs arbitrary: j w ll)
  case Nil
  then show ?case by simp
next
  case (Cons img rest)
  let ?k = "int i * bs + int j"
  let ?p = "path_join bd (bbox_name ?k)"
  let ?out = "(bb, sb, lb)"
  from Cons.prems obtain fig labels where
    j: "j < length bb"
    and draw: "draw_boxes cnames gp ?k (paired ?out j) (new_figure img, []) = Inr (fig, labels)"
    and rec: "annotate_images cnames gp bd bs i bb sb lb (Suc j) rest
                (write_file ?p (FigureJpeg fig) w, ll @ [np_array labels]) = Inr (w', ll')"
    by (auto simp: paired_def str_int_def bbox_name_def
             dest!: bind_res_Inr py_getitem_nat split: prod.splits)
  from draw_boxes_Inr[OF draw]
  have labels: "np_array labels = image_labels ?out j"
    and patches: "fig_patches fig = map rect_of (paired ?out j)"
    and img: "fig_image fig = img"
    by (simp_all add: image_labels_def new_figure_def)
  note IH = Cons.IH[OF rec]
  let ?w1 = "write_file ?p (FigureJpeg fig) w"
  have ll': "ll' = ll @ map (\<lambda>t. image_labels ?out (j + t)) [0..<length (img # rest)]"
  proof -
    from IH have "ll' = (ll @ [np_array labels])
                   @ map (\<lambda>t. image_labels ?out (Suc j + t)) [0..<length rest]" by blast
    then show ?thesis by (simp add: labels map_upt_Suc del: upt_Suc)
  qed
  have same: "dirs w' = dirs w \<and> instantiated w' = instantiated w"
    using IH by (simp add: write_file_def)
  have frame1: "files w' q = files ?w1 q"
    if "\<forall>t < length rest. q \<noteq> path_join bd (bbox_name (int i * bs + int (Suc j + t)))" for q
    using IH that by blast
  have first: "files w' ?p = Some (FigureJpeg fig)"
  proof -
    have "\<forall>t < length rest. ?p \<noteq> path_join bd (bbox_name (int i * bs + int (Suc j + t)))"
      by (auto dest!: bbox_path_inj)
    from frame1[OF this] show ?thesis by (simp add: write_file_def)
  qed
  have figs: "\<exists>fig. files w' (path_join bd (bbox_name (int i * bs + int (j + t)))) = Some (FigureJpeg fig)
           \<and> fig_image fig = (img # rest) ! t
           \<and> fig_patches fig = map rect_of (paired ?out (j + t))"
    if t: "t < length (img # rest)" for t
  proof (cases t)
    case 0
    with first patches img show ?thesis by auto
  next
    case (Suc t')
    with t have "t' < length rest" by simp
    with IH have "\<exists>fig. files w' (path_join bd (bbox_name (int i * bs + int (Suc j + t')))) = Some (FigureJpeg fig)
           \<and> fig_image fig = rest ! t'
           \<and> fig_patches fig = map rect_of (paired ?out (Suc j + t'))" by blast
    with Suc show ?thesis by simp
  qed
  have frame: "files w' q = files w q"
    if q: "\<forall>t < length (img # rest). q \<noteq> path_join bd (bbox_name (int i * bs + int (j + t)))" for q
  proof -
    from q[rule_format, of 0] have "q \<noteq> ?p" by simp
    moreover have "\<forall>t < length rest. q \<noteq> path_join bd (bbox_name (int i * bs + int (Suc j + t)))"
    proof (intro allI impI)
      fix t assume "t < length rest"
      with q[rule_format, of "Suc t"] show "q \<noteq> path_join bd (bbox_name (int i * bs + int (Suc j + t)))"
        by simp
    qed
    ultimately show ?thesis using frame1[of q] by (simp add: write_file_def)
  qed
  have bound: "j + length (img # rest) \<le> length bb"
  proof (cases rest)
    case Nil
    with j show ?thesis by simp
  next
    case (Cons r rs)
    with IH have "Suc j + length rest \<le> length bb" by blast
    then show ?thesis by simp
  qed
  from ll' same figs frame bound show ?case by blast
qed

lemma map_res_Inr:
  "map_res f xs = Inr ys \<Longrightarrow> list_all2 (\<lambda>x y. f x = Inr y) xs ys"
proof (induction xs arbitrary: ys)
  case Nil
  then show ?case by simp
next
  case (Cons x xs)
  from Cons.prems obtain y ys' where "f x = Inr y" "map_res f xs = Inr ys'" "ys = y # ys'"
    by (auto dest!: bind_res_Inr)
  with Cons.IH show ?case by simp
qed

lemma image_open_Inr: "image_open w p = Inr im \<Longrightarrow> files w p = Some (ImageJpeg im)"
  by (auto simp: image_open_def split: option.splits file_content.splits)

lemma images_opened:
  "map_res (image_open w) ps = Inr ims \<Longrightarrow>
   list_all2 (\<lambda>p im. files w p = Some (ImageJpeg im)) ps ims"
  by (drule map_res_Inr) (auto elim!: list_all2_mono dest: image_open_Inr)

lemma annotate_batches_Inr:
  assumes "annotate_batches m an a syn gp bd i bts (w, bl, sl, ll) = Inr (w', bl', sl', ll')"
      and "\<forall>p \<in> set (concat bts). \<forall>k. p \<noteq> path_join bd (bbox_name k)"
      and "0 \<le> batch_size_annotation a"
      and "\<forall>b \<in> set bts. int (length b) \<le> batch_size_annotation a"
  shows "\<exists>imss.
         list_all2 (list_all2 (\<lambda>p im. files w p = Some (ImageJpeg im))) bts imss
       \<and> bl' = bl @ concat (map (\<lambda>ims. fst (detect m an a syn ims)) imss)
       \<and> ll' = ll @ concat (map (\<lambda>ims. map (image_labels (detect m an a syn ims))
                                        [0..<length ims]) imss)
       \<and> dirs w' = dirs w \<and> instantiated w' = instantiated w
       \<and> (\<forall>t < length imss. \<forall>j < length (imss ! t). \<exists>fig.
             files w' (path_join bd (bbox_name (int (i + t) * batch_size_annotation a + int j)))
               = Some (FigureJpeg fig)
           \<and> fig_image fig = imss ! t ! j
           \<and> fig_patches fig = map rect_of (paired (detect m an a syn (imss ! t)) j))
       \<and> (\<forall>p. (\<forall>k \<ge> int i * batch_size_annotation a. p \<noteq> path_join bd (bbox_name k))
              \<longrightarrow> files w' p = files w p)
       \<and> (\<forall>ims \<in> set imss. ims \<noteq> [] \<longrightarrow> length ims \<le> length (fst (detect m an a syn ims)))"
  using assms
proof (induction bts arbitrary: i w bl sl ll)
  case Nil
  then show ?case by simp
next
  case (Cons batch rest)
  let ?bs = "batch_size_annotation a"
  note nb = Cons.prems(2) and pos = Cons.prems(3) and len = Cons.prems(4)
  from Cons.prems(1) obtain images bb sb lb w1 ll1 where
    opened: "map_res (image_open w) batch = Inr images"
    and out: "detect m an a syn images = (bb, sb, lb)"
    and inner: "annotate_images (class_names a) gp bd ?bs i bb sb lb 0 images (w, ll)
                = Inr (w1, ll1)"
    and rec: "annotate_batches m an a syn gp bd (Suc i) rest (w1, bl @ bb, sl @ sb, ll1)
              = Inr (w', bl', sl', ll')"
    by (auto simp: detect_def dest!: bind_res_Inr split: prod.splits)
  note B = annotate_images_Inr[OF inner, simplified]
  have nb': "\<forall>p \<in> set (concat rest). \<forall>k. p \<noteq> path_join bd (bbox_name k)"
    using nb by simp
  have len': "\<forall>b \<in> set rest. int (length b) \<le> ?bs" using len by simp
  from Cons.IH[OF rec nb' pos len'] obtain imss' where
    rel': "list_all2 (list_all2 (\<lambda>p im. files w1 p = Some (ImageJpeg im))) rest imss'"
    and bl': "bl' = (bl @ bb) @ concat (map (\<lambda>ims. fst (detect m an a syn ims)) imss')"
    and ll': "ll' = ll1 @ concat (map (\<lambda>ims. map (image_labels (detect m an a syn ims))
                                        [0..<length ims]) imss')"
    and same': "dirs w' = dirs w1 \<and> instantiated w' = instantiated w1"
    and figs': "\<forall>t < length imss'. \<forall>j < length (imss' ! t). \<exists>fig.
             files w' (path_join bd (bbox_name (int (Suc i + t) * ?bs + int j)))
               = Some (FigureJpeg fig)
           \<and> fig_image fig = imss' ! t ! j
           \<and> fig_patches fig = map rect_of (paired (detect m an a syn (imss' ! t)) j)"
    and frame': "\<forall>p. (\<forall>k \<ge> int (Suc i) * ?bs. p \<noteq> path_join bd (bbox_name k))
              \<longrightarrow> files w' p = files w1 p"
    and bound': "\<forall>ims \<in> set imss'. ims \<noteq> [] \<longrightarrow> length ims \<le> length (fst (detect m an a syn ims))"
    by blast
  have frameB: "files w1 q = files w q"
    if "\<forall>t < length images. q \<noteq> path_join bd (bbox_name (int i * ?bs + int t))" for q
    using B that by blast
  have len_images: "length images = length batch"
    using images_opened[OF opened] by (simp add: list_all2_lengthD)
  have small: "int (length images) \<le> ?bs" using len len_images by simp
  have step: "int (Suc i) * ?bs = int i * ?bs + ?bs" by (simp add: algebra_simps)
  \<comment> \<open>the images read\<close>
  have rel_first: "list_all2 (\<lambda>p im. files w p = Some (ImageJpeg im)) batch images"
    by (rule images_opened[OF opened])
  have rel_rest: "list_all2 (list_all2 (\<lambda>p im. files w p = Some (ImageJpeg im))) rest imss'"
    using rel'
  proof (rule list.rel_mono_strong)
    fix b ims assume b: "b \<in> set rest" and "ims \<in> set imss'"
      and r: "list_all2 (\<lambda>p im. files w1 p = Some (ImageJpeg im)) b ims"
    from r show "list_all2 (\<lambda>p im. files w p = Some (ImageJpeg im)) b ims"
    proof (rule list.rel_mono_strong)
      fix p im assume p: "p \<in> set b" and f: "files w1 p = Some (ImageJpeg im)"
      from p b nb have "\<forall>k. p \<noteq> path_join bd (bbox_name k)" by auto
      then have "files w1 p = files w p" by (intro frameB) blast
      with f show "files w p = Some (ImageJpeg im)" by simp
    qed
  qed
  let ?imss = "images # imss'"
  have rel: "list_all2 (list_all2 (\<lambda>p im. files w p = Some (ImageJpeg im))) (batch # rest) ?imss"
    using rel_first rel_rest by simp
  have bl: "bl' = bl @ concat (map (\<lambda>ims. fst (detect m an a syn ims)) ?imss)"
    using bl' out by simp
  have ll: "ll' = ll @ concat (map (\<lambda>ims. map (image_labels (detect m an a syn ims))
                                        [0..<length ims]) ?imss)"
    using ll' B out by simp
  have same: "dirs w' = dirs w \<and> instantiated w' = instantiated w"
    using same' B by simp
  have frame: "files w' q = files w q"
    if q: "\<forall>k \<ge> int i * ?bs. q \<noteq> path_join bd (bbox_name k)" for q
  proof -
    have "\<forall>k \<ge> int (Suc i) * ?bs. q \<noteq> path_join bd (bbox_name k)"
      using q pos unfolding step by simp
    with frame' have "files w' q = files w1 q" by blast
    moreover have "files w1 q = files w q"
      using q by (intro frameB) simp
    ultimately show ?thesis by simp
  qed
  have figs: "\<exists>fig. files w' (path_join bd (bbox_name (int (i + t) * ?bs + int j)))
               = Some (FigureJpeg fig)
           \<and> fig_image fig = ?imss ! t ! j
           \<and> fig_patches fig = map rect_of (paired (detect m an a syn (?imss ! t)) j)"
    if t: "t < length ?imss" and j: "j < length (?imss ! t)" for t j
  proof (cases t)
    case 0
    with j have j': "j < length images" by simp
    with B obtain fig where
      f: "files w1 (path_join bd (bbox_name (int i * ?bs + int j))) = Some (FigureJpeg fig)"
      and fi: "fig_image fig = images ! j"
      and fp: "fig_patches fig = map rect_of (paired (bb, sb, lb) j)"
      by blast
    have "int i * ?bs + int j < int (Suc i) * ?bs" using j' small unfolding step by simp
    then have "\<forall>k \<ge> int (Suc i) * ?bs.
        path_join bd (bbox_name (int i * ?bs + int j)) \<noteq> path_join bd (bbox_name k)"
      by (auto dest!: bbox_path_inj)
    with frame' have "files w' (path_join bd (bbox_name (int i * ?bs + int j)))
        = files w1 (path_join bd (bbox_name (int i * ?bs + int j)))" by blast
    with f fi fp 0 out show ?thesis by simp
  next
    case (Suc t')
    with t j have "t' < length imss'" "j < length (imss' ! t')" by simp_all
    with figs' obtain fig where
      "files w' (path_join bd (bbox_name (int (Suc i + t') * ?bs + int j))) = Some (FigureJpeg fig)"
      "fig_image fig = imss' ! t' ! j"
      "fig_patches fig = map rect_of (paired (detect m an a syn (imss' ! t')) j)"
      by blast
    with Suc show ?thesis by simp
  qed
  have bound: "\<forall>ims \<in> set ?imss. ims \<noteq> [] \<longrightarrow> length ims \<le> length (fst (detect m an a syn ims))"
    using bound' B out by auto
  from rel bl ll same figs frame bound show ?case by blast
qed

subsection \<open>Paths under the save directory\<close>

lemma literal_paths:
  "path_join sd ''generation_args.json'' = dir_prefix sd @ ''generation_args.json''"
  "path_join sd ''prompts.json'' = dir_prefix sd @ ''prompts.json''"
  "path_join sd ''synonyms.json'' = dir_prefix sd @ ''synonyms.json''"
  "path_join sd ''annotations.json'' = dir_prefix sd @ ''annotations.json''"
  "path_join sd ''bboxes_visualization'' = dir_prefix sd @ ''bboxes_visualization''"
  by (simp_all add: path_join_relative)

lemma bbox_dir_path:
  "path_join (path_join sd ''bboxes_visualization'') (bbox_name k)
   = dir_prefix sd @ ''bboxes_visualization/'' @ bbox_name k"
proof -
  have "dir_prefix (dir_prefix sd @ ''bboxes_visualization'')
        = dir_prefix sd @ ''bboxes_visualization/''"
    by (simp add: dir_prefix_def)
  then show ?thesis by (simp add: bbox_path_eq literal_paths)
qed

lemma bbox_dir_path_normal:
  "path_join (dir_prefix sd @ ''bboxes_visualization'') (bbox_name k)
   = dir_prefix sd @ ''bboxes_visualization/'' @ bbox_name k"
  using bbox_dir_path[of sd k] by (simp add: literal_paths)

lemmas save_dir_paths = literal_paths image_path_eq bbox_dir_path_normal

lemma image_path_not_bbox:
  "path_join sd (image_name n) \<noteq> path_join (path_join sd ''bboxes_visualization'') (bbox_name k)"
  unfolding save_dir_paths by (simp add: image_name_def)

lemma image_path_not_literal:
  "path_join sd (image_name n) \<noteq> path_join sd ''generation_args.json''"
  "path_join sd (image_name n) \<noteq> path_join sd ''prompts.json''"
  "path_join sd (image_name n) \<noteq> path_join sd ''synonyms.json''"
  "path_join sd (image_name n) \<noteq> path_join sd ''annotations.json''"
  unfolding save_dir_paths by (simp_all add: image_name_def)

lemma bbox_path_not_literal:
  "path_join (path_join sd ''bboxes_visualization'') (bbox_name k) \<noteq> path_join sd ''generation_args.json''"
  "path_join (path_join sd ''bboxes_visualization'') (bbox_name k) \<noteq> path_join sd ''prompts.json''"
  "path_join (path_join sd ''bboxes_visualization'') (bbox_name k) \<noteq> path_join sd ''synonyms.json''"
  "path_join (path_join sd ''bboxes_visualization'') (bbox_name k) \<noteq> path_join sd ''annotations.json''"
  by (simp_all add: save_dir_paths)

lemma literal_paths_distinct:
  "path_join sd ''generation_args.json'' \<noteq> path_join sd ''prompts.json''"
  "path_join sd ''generation_args.json'' \<noteq> path_join sd ''synonyms.json''"
  "path_join sd ''generation_args.json'' \<noteq> path_join sd ''annotations.json''"
  "path_join sd ''prompts.json'' \<noteq> path_join sd ''synonyms.json''"
  "path_join sd ''prompts.json'' \<noteq> path_join sd ''annotations.json''"
  "path_join sd ''synonyms.json'' \<noteq> path_join sd ''annotations.json''"
  by (simp_all add: save_dir_paths)

lemma dict_getitem_Inr: "dict_getitem d k = Inr v \<Longrightarrow> map_of d k = Some v"
  by (simp add: dict_getitem_def split: option.splits)

lemma annotators_owlv2:
  "dict_getitem annotators k = Inr c \<Longrightarrow> k = ''owlv2'' \<and> c = OWLv2Annotator"
  by (auto simp: dict_getitem_def annotators_def split: option.splits if_splits)

subsection \<open>The run up to the annotation stage\<close>

lemma main_prefix:
  assumes "main e m a w0 = Inr wn"
  shows "\<exists>pgc igc gp imgs ips syn sgs w7.
     map_of prompt_generators (prompt_generator a) = Some pgc
   \<and> map_of image_generators (image_generator a) = Some igc
   \<and> gp = generate_prompts m (new_prompt_generator pgc a)
   \<and> imgs = concat (generate_images m (new_image_generator igc a) (map snd gp) (map fst gp))
   \<and> ips = map (\<lambda>n. path_join (save_dir a) (image_name n)) [0..<length imgs]
   \<and> 1 \<le> batch_size_annotation a
   \<and> ((synonym_generator a = ''none'' \<and> syn = None \<and> sgs = []
        \<and> files w7 (path_join (save_dir a) ''synonyms.json'')
            = files w0 (path_join (save_dir a) ''synonyms.json''))
      \<or> (synonym_generator a \<noteq> ''none''
        \<and> (\<exists>sgc. map_of synonym_generators (synonym_generator a) = Some sgc
              \<and> syn = Some (generate_synonyms_for_list m (new_synonym_generator sgc a)
                              (class_names a))
              \<and> sgs = [sgc]
              \<and> files w7 (path_join (save_dir a) ''synonyms.json'')
                  = Some (SynonymsJson (generate_synonyms_for_list m
                            (new_synonym_generator sgc a) (class_names a))))))
   \<and> instantiated w7 = instantiated w0 @ pgc # sgs @ [igc]
   \<and> files w7 (path_join (save_dir a) ''generation_args.json'') = Some (ArgsJson a)
   \<and> files w7 (path_join (save_dir a) ''prompts.json'') = Some (PromptsJson gp)
   \<and> (\<forall>n < length imgs. files w7 (ips ! n) = Some (ImageJpeg (imgs ! n)))
   \<and> (if task a = ''classification'' then classification_stage a gp ips w7
       else detection_stage m a syn gp (path_join (save_dir a) ''bboxes_visualization'') ips w7)
      = Inr wn"
proof -
  let ?sd = "save_dir a"
  from main_Inr[OF assms] obtain w1 w2 w3 gp w5 syn w6 ips num w7 where
    chk: "check_args e w0 a = Inr (a, w1)"
    and e1: "ensure_dir e ?sd w1 = Inr w2"
    and e2: "ensure_dir e (path_join ?sd ''bboxes_visualization'') w2 = Inr w3"
    and ps: "prompt_stage m a (write_file (path_join ?sd ''generation_args.json'') (ArgsJson a) w3)
             = Inr (gp, w5)"
    and ss: "synonym_stage m a w5 = Inr (syn, w6)"
    and im: "image_stage m a gp w6 = Inr ((ips, num), w7)"
    and fin: "(if task a = ''classification'' then classification_stage a gp ips w7
               else detection_stage m a syn gp (path_join ?sd ''bboxes_visualization'') ips w7)
              = Inr wn"
    by blast
  from check_args_Inr[OF chk] ensure_dir_Inr[OF e1] ensure_dir_Inr[OF e2]
  have w3: "files w3 = files w0" "instantiated w3 = instantiated w0"
    and bs: "1 \<le> batch_size_annotation a" by simp_all
  let ?w4 = "write_file (path_join ?sd ''generation_args.json'') (ArgsJson a) w3"
  from prompt_stage_Inr[OF ps] obtain pgc where
    pgc: "dict_getitem prompt_generators (prompt_generator a) = Inr pgc"
    and gp: "gp = generate_prompts m (new_prompt_generator pgc a)"
    and w5: "w5 = write_file (path_join ?sd ''prompts.json'') (PromptsJson gp) (instantiate pgc ?w4)"
    by blast
  have w5_inst: "instantiated w5 = instantiated w0 @ [pgc]"
    by (simp add: w5 write_file_def instantiate_def w3)
  have w5_args: "files w5 (path_join ?sd ''generation_args.json'') = Some (ArgsJson a)"
    using literal_paths_distinct(1)[of ?sd]
    by (simp add: w5 write_file_def instantiate_def)
  have w5_prompts: "files w5 (path_join ?sd ''prompts.json'') = Some (PromptsJson gp)"
    by (simp add: w5 write_file_def instantiate_def)
  have w5_syn: "files w5 (path_join ?sd ''synonyms.json'') = files w0 (path_join ?sd ''synonyms.json'')"
    using literal_paths_distinct(2,4)[of ?sd]
    by (simp add: w5 write_file_def instantiate_def w3)
  from synonym_stage_Inr[OF ss] obtain sgs where
    syn: "(synonym_generator a = ''none'' \<and> syn = None \<and> sgs = []
        \<and> files w6 (path_join ?sd ''synonyms.json'') = files w0 (path_join ?sd ''synonyms.json''))
      \<or> (synonym_generator a \<noteq> ''none''
        \<and> (\<exists>sgc. map_of synonym_generators (synonym_generator a) = Some sgc
              \<and> syn = Some (generate_synonyms_for_list m (new_synonym_generator sgc a)
                              (class_names a))
              \<and> sgs = [sgc]
              \<and> files w6 (path_join ?sd ''synonyms.json'')
                  = Some (SynonymsJson (generate_synonyms_for_list m
                            (new_synonym_generator sgc a) (class_names a)))))"
    and w6_inst: "instantiated w6 = instantiated w5 @ sgs"
    and w6_args: "files w6 (path_join ?sd ''generation_args.json'')
                  = files w5 (path_join ?sd ''generation_args.json'')"
    and w6_prompts: "files w6 (path_join ?sd ''prompts.json'') = files w5 (path_join ?sd ''prompts.json'')"
  proof (elim disjE conjE exE)
    assume "synonym_generator a = ''none''" "syn = None" "w6 = w5"
    then show ?thesis using w5_syn by (intro that[of "[]"]) simp_all
  next
    fix sgc sdict
    assume n: "synonym_generator a \<noteq> ''none''"
      and c: "dict_getitem synonym_generators (synonym_generator a) = Inr sgc"
      and d: "sdict = generate_synonyms_for_list m (new_synonym_generator sgc a) (class_names a)"
      and s: "syn = Some sdict"
      and w: "w6 = write_file (path_join ?sd ''synonyms.json'') (SynonymsJson sdict)
                     (instantiate sgc w5)"
    show ?thesis
    proof (rule that[of "[sgc]"])
      show "(synonym_generator a = ''none'' \<and> syn = None \<and> [sgc] = []
        \<and> files w6 (path_join ?sd ''synonyms.json'') = files w0 (path_join ?sd ''synonyms.json''))
      \<or> (synonym_generator a \<noteq> ''none''
        \<and> (\<exists>sgc'. map_of synonym_generators (synonym_generator a) = Some sgc'
              \<and> syn = Some (generate_synonyms_for_list m (new_synonym_generator sgc' a)
                              (class_names a))
              \<and> [sgc] = [sgc']
              \<and> files w6 (path_join ?sd ''synonyms.json'')
                  = Some (SynonymsJson (generate_synonyms_for_list m
                            (new_synonym_generator sgc' a) (class_names a)))))"
        using n dict_getitem_Inr[OF c] d s w
        by (auto simp: write_file_def instantiate_def)
      show "instantiated w6 = instantiated w5 @ [sgc]"
        by (simp add: w write_file_def instantiate_def)
      show "files w6 (path_join ?sd ''generation_args.json'')
            = files w5 (path_join ?sd ''generation_args.json'')"
        using literal_paths_distinct(2)[of ?sd] by (simp add: w write_file_def instantiate_def)
      show "files w6 (path_join ?sd ''prompts.json'') = files w5 (path_join ?sd ''prompts.json'')"
        using literal_paths_distinct(4)[of ?sd] by (simp add: w write_file_def instantiate_def)
    qed
  qed
  from image_stage_Inr[OF im] obtain igc where
    igc: "dict_getitem image_generators (image_generator a) = Inr igc"
    and sv: "save_images ?sd
               (generate_images m (new_image_generator igc a) (map snd gp) (map fst gp))
               (instantiate igc w6, [], 0) = (w7, ips, num)"
    by blast
  define imgs where
    "imgs = concat (generate_images m (new_image_generator igc a) (map snd gp) (map fst gp))"
  from sv have run: "save_image_batch ?sd imgs (instantiate igc w6, [], 0) = (w7, ips, num)"
    by (simp add: save_images_concat imgs_def)
  from save_image_batch_paths[OF run]
  have ips: "ips = map (\<lambda>n. path_join ?sd (image_name n)) [0..<length imgs]" by simp
  note W = save_image_batch_world[OF run]
  have w7_inst: "instantiated w7 = instantiated w0 @ pgc # sgs @ [igc]"
    using W by (simp add: instantiate_def w6_inst w5_inst)
  have w7_imgs: "\<forall>n < length imgs. files w7 (ips ! n) = Some (ImageJpeg (imgs ! n))"
    using W by (simp add: ips)
  have keep: "files w7 q = files w6 q" if "\<forall>n. q \<noteq> path_join ?sd (image_name n)" for q
  proof -
    from that have "\<forall>k < length imgs. q \<noteq> path_join ?sd (image_name (0 + k))" by simp
    with W have "files w7 q = files (instantiate igc w6) q" by blast
    then show ?thesis by (simp add: instantiate_def)
  qed
  have w7_args: "files w7 (path_join ?sd ''generation_args.json'') = Some (ArgsJson a)"
    using keep[of "path_join ?sd ''generation_args.json''"] image_path_not_literal(1)[of ?sd]
    by (metis w6_args w5_args)
  have w7_prompts: "files w7 (path_join ?sd ''prompts.json'') = Some (PromptsJson gp)"
    using keep[of "path_join ?sd ''prompts.json''"] image_path_not_literal(2)[of ?sd]
    by (metis w6_prompts w5_prompts)
  have w7_syn: "files w7 (path_join ?sd ''synonyms.json'') = files w6 (path_join ?sd ''synonyms.json'')"
    using keep[of "path_join ?sd ''synonyms.json''"] image_path_not_literal(3)[of ?sd]
    by metis
  show ?thesis
    apply (rule exI[of _ pgc], rule exI[of _ igc], rule exI[of _ gp], rule exI[of _ imgs],
           rule exI[of _ ips], rule exI[of _ syn], rule exI[of _ sgs], rule exI[of _ w7])
    using dict_getitem_Inr[OF pgc] dict_getitem_Inr[OF igc] gp ips bs syn w7_inst w7_args
      w7_prompts w7_imgs fin
    unfolding w7_syn imgs_def[symmetric]
    by (intro conjI) (assumption | rule refl)+
qed

subsection \<open>Batches in closed form\<close>

lemma range_up_length:
  assumes "0 < bs"
  shows "length (range_up 0 (int n) bs) = num_batches n bs"
proof -
  let ?L = "length (range_up 0 (int n) bs)"
  let ?s = "nat bs"
  have s: "0 < ?s" using assms by simp
  have conv: "int (k * ?s) = int k * bs" for k using assms by simp
  have up: "n \<le> ?L * ?s"
  proof (rule ccontr)
    assume "\<not> n \<le> ?L * ?s"
    then have "0 + int ?L * bs < int n" using conv[of ?L] by linarith
    from range_up_length_bound[OF assms this] show False by simp
  qed
  have low: "(?L - 1) * ?s < n" if "0 < ?L"
  proof -
    from that have "?L - 1 < ?L" by simp
    from range_up_starts[OF assms this] have "int (?L - 1) * bs < int n" by simp
    with conv[of "?L - 1"] show ?thesis by linarith
  qed
  show ?thesis
  proof (cases "?L = 0")
    case True
    with up have "n = 0" by simp
    with True s show ?thesis by (simp add: num_batches_def)
  next
    case False
    then have L: "0 < ?L" by simp
    from low[OF L] have "?L * ?s - ?s < n" by (simp add: diff_mult_distrib)
    moreover have "?s \<le> ?L * ?s" using L by (cases ?L) simp_all
    ultimately have a: "?s * ?L \<le> n + ?s - 1" by (simp add: mult.commute) 
    have b: "n + ?s - 1 < ?s * Suc ?L" using up s by (simp add: mult.commute)
    from div_nat_eqI[OF a b] show ?thesis by (simp add: num_batches_def)
  qed
qed

lemma slices_closed:
  assumes pos: "0 < bs"
  shows "map (\<lambda>i. py_slice xs i (i + bs)) (range_up 0 (int (length xs)) bs)
         = map (image_batch xs bs) [0..<num_batches (length xs) bs]"
proof (rule nth_equalityI)
  let ?starts = "range_up 0 (int (length xs)) bs"
  show "length (map (\<lambda>i. py_slice xs i (i + bs)) ?starts)
        = length (map (image_batch xs bs) [0..<num_batches (length xs) bs])"
    by (simp add: range_up_length[OF pos])
  fix k assume "k < length (map (\<lambda>i. py_slice xs i (i + bs)) ?starts)"
  then have k: "k < length ?starts" by simp
  then have k': "k < num_batches (length xs) bs" by (simp add: range_up_length[OF pos])
  from batches_nth[OF pos _ k] k'
  show "map (\<lambda>i. py_slice xs i (i + bs)) ?starts ! k
        = map (image_batch xs bs) [0..<num_batches (length xs) bs] ! k"
    by (simp add: image_batch_def)
qed

lemma image_batches_closed:
  assumes "1 \<le> bs"
  shows "image_batches xs bs = Inr (map (image_batch xs bs) [0..<num_batches (length xs) bs])"
proof -
  have pos: "0 < bs" using assms by simp
  with slices_closed[OF pos, of xs] show ?thesis
    by (simp add: image_batches_def py_range_def bind_res_def)
qed

lemma concat_image_batches:
  assumes "1 \<le> bs"
  shows "concat (map (image_batch xs bs) [0..<num_batches (length xs) bs]) = xs"
proof -
  have pos: "0 < bs" using assms by simp
  from batches_concat[OF pos, of 0 xs] show ?thesis
    by (simp add: slices_closed[OF pos])
qed

lemma num_batches_less:
  assumes "0 < bs"
  shows "t < num_batches n bs \<longleftrightarrow> t * nat bs < n"
proof
  assume "t < num_batches n bs"
  then have "t < length (range_up 0 (int n) bs)" by (simp add: range_up_length[OF assms])
  from batch_start_nat[OF assms this] show "t * nat bs < n" .
next
  assume "t * nat bs < n"
  then have "0 + int t * bs < int n" using assms
    by (metis add.left_neutral int_nat_eq less_le_not_le of_nat_less_iff of_nat_mult)
  from range_up_length_bound[OF assms this] show "t < num_batches n bs"
    by (simp add: range_up_length[OF assms])
qed

lemma image_batch_nth:
  assumes "1 \<le> bs" "t * nat bs + j < length xs" "j < nat bs"
  shows "j < length (image_batch xs bs t) \<and> image_batch xs bs t ! j = xs ! (t * nat bs + j)"
  using assms by (simp add: image_batch_def)

lemma image_batch_length: "int (length (image_batch xs bs t)) \<le> max 0 bs"
  by (simp add: image_batch_def)

lemma global_index:
  assumes "1 \<le> bs" "n < N"
  shows "n div nat bs < num_batches N bs" "n mod nat bs < nat bs"
    "(n div nat bs) * nat bs + n mod nat bs = n"
    "int (n div nat bs) * bs + int (n mod nat bs) = int n"
proof -
  have pos: "0 < bs" and s: "0 < nat bs" using assms(1) by simp_all
  have "(n div nat bs) * nat bs \<le> n" by simp
  with assms(2) have "(n div nat bs) * nat bs < N" by linarith
  then show "n div nat bs < num_batches N bs" by (simp add: num_batches_less[OF pos])
  show "n mod nat bs < nat bs" using s by simp
  show e: "(n div nat bs) * nat bs + n mod nat bs = n" by simp
  have "int (nat bs) = bs" using pos by simp
  then have "int (n div nat bs) * bs + int (n mod nat bs)
             = int ((n div nat bs) * nat bs + n mod nat bs)"
    by (simp only: of_nat_add of_nat_mult)
  also have "\<dots> = int n" by (simp only: e)
  finally show "int (n div nat bs) * bs + int (n mod nat bs) = int n" .
qed

text \<open>The images read for the batches are the batches of the generated images.\<close>

lemma batch_images_determined:
  assumes rel: "list_all2 (\<lambda>p im. files w p = Some (ImageJpeg im)) (image_batch ips bs t) ims"
      and saved: "\<forall>n < length imgs. files w (ips ! n) = Some (ImageJpeg (imgs ! n))"
      and len: "length ips = length imgs"
  shows "ims = image_batch imgs bs t"
proof (rule nth_equalityI)
  show l: "length ims = length (image_batch imgs bs t)"
    using list_all2_lengthD[OF rel] len by (simp add: image_batch_def)
  fix j assume j: "j < length ims"
  with l have j': "j < length (image_batch imgs bs t)" by simp
  then have "j < length imgs - t * nat bs" and js: "j < nat bs"
    by (simp_all add: image_batch_def)
  then have n: "t * nat bs + j < length imgs" by linarith
  from rel j have "files w (image_batch ips bs t ! j) = Some (ImageJpeg (ims ! j))"
    by (simp add: list_all2_conv_all_nth)
  moreover have "image_batch ips bs t ! j = ips ! (t * nat bs + j)"
    using n js len by (simp add: image_batch_def)
  ultimately have "files w (ips ! (t * nat bs + j)) = Some (ImageJpeg (ims ! j))" by simp
  with saved n have "ims ! j = imgs ! (t * nat bs + j)" by simp
  then show "ims ! j = image_batch imgs bs t ! j"
    using n js by (simp add: image_batch_def)
qed

lemma all_batch_images_determined:
  assumes rel: "list_all2 (list_all2 (\<lambda>p im. files w p = Some (ImageJpeg im)))
                  (map (image_batch ips bs) [0..<nb]) imss"
      and saved: "\<forall>n < length imgs. files w (ips ! n) = Some (ImageJpeg (imgs ! n))"
      and len: "length ips = length imgs"
  shows "imss = map (image_batch imgs bs) [0..<nb]"
proof (rule nth_equalityI)
  show l: "length imss = length (map (image_batch imgs bs) [0..<nb])"
    using list_all2_lengthD[OF rel] by simp
  fix t assume "t < length imss"
  with l have t: "t < nb" by simp
  with rel have "list_all2 (\<lambda>p im. files w p = Some (ImageJpeg im)) (image_batch ips bs t) (imss ! t)"
    by (simp add: list_all2_conv_all_nth)
  from batch_images_determined[OF this saved len] t
  show "imss ! t = map (image_batch imgs bs) [0..<nb] ! t" by simp
qed

subsection \<open>The last stage\<close>

lemma main_prefix_named:
  assumes "main e m a w0 = Inr wn"
  shows "\<exists>w7 pgc igc sgs.
     map_of prompt_generators (prompt_generator a) = Some pgc
   \<and> map_of image_generators (image_generator a) = Some igc
   \<and> (synonym_generator a = ''none'' \<and> sgs = []
      \<or> synonym_generator a \<noteq> ''none''
        \<and> (\<exists>sgc. map_of synonym_generators (synonym_generator a) = Some sgc \<and> sgs = [sgc]))
   \<and> 1 \<le> batch_size_annotation a
   \<and> instantiated w7 = instantiated w0 @ pgc # sgs @ [igc]
   \<and> files w7 (path_join (save_dir a) ''generation_args.json'') = Some (ArgsJson a)
   \<and> files w7 (path_join (save_dir a) ''prompts.json'') = Some (PromptsJson (prompts_of m a))
   \<and> files w7 (path_join (save_dir a) ''synonyms.json'')
       = (case synonyms_of m a of
            None \<Rightarrow> files w0 (path_join (save_dir a) ''synonyms.json'')
          | Some d \<Rightarrow> Some (SynonymsJson d))
   \<and> (\<forall>n < length (images_of m a).
         files w7 (image_paths_of m a ! n) = Some (ImageJpeg (images_of m a ! n)))
   \<and> (if task a = ''classification''
       then classification_stage a (prompts_of m a) (image_paths_of m a) w7
       else detection_stage m a (synonyms_of m a) (prompts_of m a)
              (path_join (save_dir a) ''bboxes_visualization'') (image_paths_of m a) w7)
      = Inr wn"
proof -
  from main_prefix[OF assms] obtain pgc igc gp imgs ips syn sgs w7 where
    pgc: "map_of prompt_generators (prompt_generator a) = Some pgc"
    and igc: "map_of image_generators (image_generator a) = Some igc"
    and gp: "gp = generate_prompts m (new_prompt_generator pgc a)"
    and imgs: "imgs = concat (generate_images m (new_image_generator igc a) (map snd gp) (map fst gp))"
    and ips: "ips = map (\<lambda>n. path_join (save_dir a) (image_name n)) [0..<length imgs]"
    and bs: "1 \<le> batch_size_annotation a"
    and syn: "(synonym_generator a = ''none'' \<and> syn = None \<and> sgs = []
        \<and> files w7 (path_join (save_dir a) ''synonyms.json'')
            = files w0 (path_join (save_dir a) ''synonyms.json''))
      \<or> (synonym_generator a \<noteq> ''none''
        \<and> (\<exists>sgc. map_of synonym_generators (synonym_generator a) = Some sgc
              \<and> syn = Some (generate_synonyms_for_list m (new_synonym_generator sgc a)
                              (class_names a))
              \<and> sgs = [sgc]
              \<and> files w7 (path_join (save_dir a) ''synonyms.json'')
                  = Some (SynonymsJson (generate_synonyms_for_list m
                            (new_synonym_generator sgc a) (class_names a)))))"
    and inst: "instantiated w7 = instantiated w0 @ pgc # sgs @ [igc]"
    and fa: "files w7 (path_join (save_dir a) ''generation_args.json'') = Some (ArgsJson a)"
    and fp: "files w7 (path_join (save_dir a) ''prompts.json'') = Some (PromptsJson gp)"
    and fi: "\<forall>n < length imgs. files w7 (ips ! n) = Some (ImageJpeg (imgs ! n))"
    and fin: "(if task a = ''classification'' then classification_stage a gp ips w7
       else detection_stage m a syn gp (path_join (save_dir a) ''bboxes_visualization'') ips w7)
      = Inr wn"
    by blast
  have gp': "prompts_of m a = gp" by (simp add: prompts_of_def pgc gp)
  have imgs': "images_of m a = imgs" by (simp add: images_of_def igc gp' imgs)
  have ips': "image_paths_of m a = ips" by (simp add: image_paths_of_def imgs' ips)
  from syn have syn': "synonyms_of m a = syn"
    by (auto simp: synonyms_of_def)
  from syn have sgs: "synonym_generator a = ''none'' \<and> sgs = []
      \<or> synonym_generator a \<noteq> ''none''
        \<and> (\<exists>sgc. map_of synonym_generators (synonym_generator a) = Some sgc \<and> sgs = [sgc])"
    by blast
  from syn have fs: "files w7 (path_join (save_dir a) ''synonyms.json'')
       = (case synonyms_of m a of
            None \<Rightarrow> files w0 (path_join (save_dir a) ''synonyms.json'')
          | Some d \<Rightarrow> Some (SynonymsJson d))"
    unfolding syn' by auto
  show ?thesis
    apply (rule exI[of _ w7], rule exI[of _ pgc], rule exI[of _ igc], rule exI[of _ sgs])
    unfolding gp' imgs' ips' syn'
    using pgc igc sgs bs inst fa fp fs[unfolded syn'] fi fin
    by (intro conjI) assumption+
qed

text \<open>What the last stage leaves alone.\<close>

lemma classification_stage_effect:
  assumes "classification_stage a gp ips w = Inr w'"
  shows "instantiated w' = instantiated w
       \<and> (\<forall>q. q \<noteq> path_join (save_dir a) ''annotations.json'' \<longrightarrow> files w' q = files w q)
       \<and> (\<exists>labels_list. map_res (clf_labels (class_names a)) (map fst gp) = Inr labels_list
            \<and> files w' (path_join (save_dir a) ''annotations.json'')
                = Some (AnnotationsJson (clf_annotations ips labels_list (class_names a))))"
  using classification_stage_Inr[OF assms]
  by (auto simp: save_clf_annotations_to_json_def write_file_def)

lemma set_image_batch: "set (image_batch xs bs t) \<subseteq> set xs"
  unfolding image_batch_def by (meson set_take_subset set_drop_subset subset_trans)

lemma detection_stage_effect:
  fixes imgs :: "'img list" and a :: args and m :: "'img models" and syn :: "synonyms option"
  defines "bd \<equiv> path_join (save_dir a) ''bboxes_visualization''"
  defines "nb \<equiv> num_batches (length imgs) (batch_size_annotation a)"
  defines "D \<equiv> \<lambda>t. detect m (new_annotator OWLv2Annotator a) a syn
                       (image_batch imgs (batch_size_annotation a) t)"
  assumes run: "detection_stage m a syn gp bd ips w = Inr w'"
      and ips: "ips = map (\<lambda>n. path_join (save_dir a) (image_name n)) [0..<length imgs]"
      and saved: "\<forall>n < length imgs. files w (ips ! n) = Some (ImageJpeg (imgs ! n))"
      and bs: "1 \<le> batch_size_annotation a"
  shows "image_annotator a = ''owlv2''
     \<and> instantiated w' = instantiated w @ [OWLv2Annotator]
     \<and> (\<forall>q. q \<noteq> path_join (save_dir a) ''annotations.json''
              \<and> (\<forall>k. q \<noteq> path_join bd (bbox_name k)) \<longrightarrow> files w' q = files w q)
     \<and> files w' (path_join (save_dir a) ''annotations.json'')
         = Some (AnnotationsJson (det_annotations ips
              (concat (map (\<lambda>t. fst (D t)) [0..<nb]))
              (concat (map (\<lambda>t. map (image_labels (D t))
                                  [0..<length (image_batch imgs (batch_size_annotation a) t)])
                        [0..<nb]))
              (class_names a)))
     \<and> (\<forall>t < nb. image_batch imgs (batch_size_annotation a) t \<noteq> []
            \<longrightarrow> length (image_batch imgs (batch_size_annotation a) t) \<le> length (fst (D t)))
     \<and> (\<forall>n < length imgs. \<exists>fig.
           files w' (path_join bd (bbox_name (int n))) = Some (FigureJpeg fig)
         \<and> fig_image fig = imgs ! n
         \<and> fig_patches fig
             = map rect_of (paired (D (n div nat (batch_size_annotation a)))
                                   (n mod nat (batch_size_annotation a))))"
proof -
  let ?bs = "batch_size_annotation a"
  let ?ann = "path_join (save_dir a) ''annotations.json''"
  have len: "length ips = length imgs" by (simp add: ips)
  from detection_stage_Inr[OF run] obtain c batches w2 bl sl ll where
    c: "dict_getitem annotators (image_annotator a) = Inr c"
    and b: "image_batches ips ?bs = Inr batches"
    and loop: "annotate_batches m (new_annotator c a) a syn gp bd 0 batches
                 (instantiate c w, [], [], []) = Inr (w2, bl, sl, ll)"
    and w': "w' = save_det_annotations_to_json ips bl ll (class_names a) (save_dir a)
                   ''annotations.json'' w2"
    by blast
  from annotators_owlv2[OF c] have owl: "image_annotator a = ''owlv2''" and c': "c = OWLv2Annotator"
    by simp_all
  from b image_batches_closed[OF bs, of ips]
  have batches: "batches = map (image_batch ips ?bs) [0..<nb]"
    by (simp add: nb_def len)
  let ?w1 = "instantiate c w"
  have no_bbox: "\<forall>p \<in> set (concat batches). \<forall>k. p \<noteq> path_join bd (bbox_name k)"
  proof (intro ballI allI)
    fix p k assume "p \<in> set (concat batches)"
    then have "p \<in> set ips" using set_image_batch[of ips ?bs] by (auto simp: batches)
    then obtain n where "p = path_join (save_dir a) (image_name n)" by (auto simp: ips)
    then show "p \<noteq> path_join bd (bbox_name k)"
      using image_path_not_bbox[of "save_dir a" n k] by (simp add: bd_def)
  qed
  have pos: "0 \<le> ?bs" using bs by simp
  have small: "\<forall>b \<in> set batches. int (length b) \<le> ?bs"
    using image_batch_length[of ips ?bs] bs by (auto simp: batches)
  from annotate_batches_Inr[OF loop no_bbox pos small] obtain imss where
    rel: "list_all2 (list_all2 (\<lambda>p im. files ?w1 p = Some (ImageJpeg im))) batches imss"
    and bl: "bl = [] @ concat (map (\<lambda>ims. fst (detect m (new_annotator c a) a syn ims)) imss)"
    and ll: "ll = [] @ concat (map (\<lambda>ims. map (image_labels (detect m (new_annotator c a) a syn ims))
                                        [0..<length ims]) imss)"
    and same: "dirs w2 = dirs ?w1 \<and> instantiated w2 = instantiated ?w1"
    and figs: "\<forall>t < length imss. \<forall>j < length (imss ! t). \<exists>fig.
             files w2 (path_join bd (bbox_name (int (0 + t) * ?bs + int j)))
               = Some (FigureJpeg fig)
           \<and> fig_image fig = imss ! t ! j
           \<and> fig_patches fig = map rect_of (paired (detect m (new_annotator c a) a syn (imss ! t)) j)"
    and frame: "\<forall>p. (\<forall>k \<ge> int 0 * ?bs. p \<noteq> path_join bd (bbox_name k))
              \<longrightarrow> files w2 p = files ?w1 p"
    and bound: "\<forall>ims \<in> set imss. ims \<noteq> [] \<longrightarrow> length ims \<le> length (fst (detect m (new_annotator c a) a syn ims))"
    by blast
  have saved1: "\<forall>n < length imgs. files ?w1 (ips ! n) = Some (ImageJpeg (imgs ! n))"
    using saved by (simp add: instantiate_def)
  from all_batch_images_determined[OF rel[unfolded batches] saved1 len]
  have imss: "imss = map (image_batch imgs ?bs) [0..<nb]" .
  have bl': "bl = concat (map (\<lambda>t. fst (D t)) [0..<nb])"
    by (simp add: bl imss D_def c' comp_def)
  have ll': "ll = concat (map (\<lambda>t. map (image_labels (D t)) [0..<length (image_batch imgs ?bs t)])
                        [0..<nb])"
    by (simp add: ll imss D_def c' comp_def)
  have inst: "instantiated w' = instantiated w @ [OWLv2Annotator]"
    using same by (simp add: w' save_det_annotations_to_json_def write_file_def instantiate_def c')
  have keep: "files w' q = files w q"
    if "q \<noteq> ?ann" and "\<forall>k. q \<noteq> path_join bd (bbox_name k)" for q
  proof -
    from that(2) frame have "files w2 q = files ?w1 q" by blast
    with that(1) show ?thesis
      by (simp add: w' save_det_annotations_to_json_def write_file_def instantiate_def)
  qed
  have annf: "files w' ?ann
         = Some (AnnotationsJson (det_annotations ips
              (concat (map (\<lambda>t. fst (D t)) [0..<nb]))
              (concat (map (\<lambda>t. map (image_labels (D t)) [0..<length (image_batch imgs ?bs t)])
                        [0..<nb]))
              (class_names a)))"
    by (simp add: w' save_det_annotations_to_json_def write_file_def bl' ll')
  have bnd: "\<forall>t < nb. image_batch imgs ?bs t \<noteq> []
            \<longrightarrow> length (image_batch imgs ?bs t) \<le> length (fst (D t))"
    using bound by (simp add: imss D_def c')
  have fig: "\<exists>fig. files w' (path_join bd (bbox_name (int n))) = Some (FigureJpeg fig)
         \<and> fig_image fig = imgs ! n
         \<and> fig_patches fig = map rect_of (paired (D (n div nat ?bs)) (n mod nat ?bs))"
    if n: "n < length imgs" for n
  proof -
    let ?t = "n div nat ?bs" and ?j = "n mod nat ?bs"
    note G = global_index[OF bs n]
    have t: "?t < length imss" using G(1) by (simp add: imss nb_def)
    have nth_t: "imss ! ?t = image_batch imgs ?bs ?t" using G(1) by (simp add: imss nb_def)
    have "?t * nat ?bs + ?j < length imgs" using G(3) n by simp
    from image_batch_nth[OF bs this G(2)]
    have j: "?j < length (imss ! ?t)" and im: "imss ! ?t ! ?j = imgs ! n"
      using G(3) by (simp_all add: nth_t)
    from figs t j obtain fig where
      f: "files w2 (path_join bd (bbox_name (int (0 + ?t) * ?bs + int ?j))) = Some (FigureJpeg fig)"
      and fi: "fig_image fig = imss ! ?t ! ?j"
      and fp: "fig_patches fig = map rect_of (paired (detect m (new_annotator c a) a syn (imss ! ?t)) ?j)"
      by blast
    have idx: "int (0 + ?t) * ?bs + int ?j = int n" using G(4) by simp
    have "path_join bd (bbox_name (int n)) \<noteq> ?ann"
      using bbox_path_not_literal(4)[of "save_dir a" "int n"] by (simp add: bd_def)
    then have "files w' (path_join bd (bbox_name (int n))) = files w2 (path_join bd (bbox_name (int n)))"
      by (simp add: w' save_det_annotations_to_json_def write_file_def)
    moreover have "image_batch imgs ?bs ?t ! ?j = imgs ! n" using im by (simp only: nth_t)
    ultimately show ?thesis using f fi fp unfolding idx nth_t by (auto simp: D_def c')
  qed
  from owl inst keep annf bnd fig show ?thesis by blast
qed

lemma image_batch_len: "length (image_batch xs bs t) = min (nat bs) (length xs - t * nat bs)"
  by (simp add: image_batch_def)

lemma concat_batches_prefix:
  assumes pos: "0 < bs"
  shows "nb \<le> num_batches (length xs) bs \<Longrightarrow>
         concat (map (\<lambda>t. map (g t) [0..<length (image_batch xs bs t)]) [0..<nb])
         = map (\<lambda>n. g (n div nat bs) (n mod nat bs)) [0..<min (length xs) (nb * nat bs)]"
proof (induction nb)
  case 0
  show ?case by simp
next
  case (Suc nb)
  let ?s = "nat bs" and ?N = "length xs"
  let ?h = "\<lambda>n. g (n div ?s) (n mod ?s)"
  let ?len = "length (image_batch xs bs nb)"
  have s: "0 < ?s" using pos by simp
  from Suc.prems have "nb < num_batches ?N bs" by simp
  then have lt: "nb * ?s < ?N" by (simp add: num_batches_less[OF pos])
  then have m1: "min ?N (nb * ?s) = nb * ?s" by simp
  have min_step: "min N (k + s) = k + min s (N - k)" if "k < N" for k s N :: nat
    using that by arith
  have "Suc nb * ?s = nb * ?s + ?s" by simp
  then have m2: "min ?N (Suc nb * ?s) = nb * ?s + ?len"
    using min_step[OF lt, of ?s] by (simp only: image_batch_len)
  from Suc have IH: "concat (map (\<lambda>t. map (g t) [0..<length (image_batch xs bs t)]) [0..<nb])
         = map ?h [0..<nb * ?s]" by (simp add: m1)
  have split: "[0..<nb * ?s + ?len] = [0..<nb * ?s] @ [nb * ?s..<nb * ?s + ?len]"
    by (rule upt_add_eq_append) simp
  have shift: "[nb * ?s..<nb * ?s + ?len] = map (\<lambda>j. j + nb * ?s) [0..<?len]"
    by (simp add: map_add_upt add.commute)
  have last: "map ?h (map (\<lambda>j. j + nb * ?s) [0..<?len]) = map (g nb) [0..<?len]"
  proof -
    have "?h (j + nb * ?s) = g nb j" if "j < ?len" for j
    proof -
      from that have "j < ?s" by (simp add: image_batch_len)
      then show ?thesis by simp
    qed
    then show ?thesis by simp
  qed
  have "concat (map (\<lambda>t. map (g t) [0..<length (image_batch xs bs t)]) [0..<Suc nb])
        = map ?h [0..<nb * ?s] @ map (g nb) [0..<?len]"
    using IH by simp
  also have "\<dots> = map ?h ([0..<nb * ?s] @ [nb * ?s..<nb * ?s + ?len])"
    by (simp only: map_append shift last)
  also have "\<dots> = map ?h [0..<min ?N (Suc nb * ?s)]"
    by (simp only: split[symmetric] m2)
  finally show ?case .
qed

lemma concat_batches:
  assumes "1 \<le> bs"
  shows "concat (map (\<lambda>t. map (g t) [0..<length (image_batch xs bs t)])
                  [0..<num_batches (length xs) bs])
         = map (\<lambda>n. g (n div nat bs) (n mod nat bs)) [0..<length xs]"
proof -
  have pos: "0 < bs" using assms by simp
  have "\<not> num_batches (length xs) bs * nat bs < length xs"
    using num_batches_less[OF pos, of "num_batches (length xs) bs" "length xs"] by simp
  then have "min (length xs) (num_batches (length xs) bs * nat bs) = length xs" by simp
  with concat_batches_prefix[OF pos order_refl, where xs = xs and g = g] show ?thesis by simp
qed

subsection \<open>A run of main that returns\<close>

lemma image_paths_of_nth:
  "n < length (images_of m a) \<Longrightarrow>
   image_paths_of m a ! n = path_join (save_dir a) (image_name n)"
  by (simp add: image_paths_of_def)

lemma main_run_common:
  assumes "main e m a w0 = Inr wn"
  shows "\<exists>pgc igc sgs.
     map_of prompt_generators (prompt_generator a) = Some pgc
   \<and> map_of image_generators (image_generator a) = Some igc
   \<and> (synonym_generator a = ''none'' \<and> sgs = []
      \<or> synonym_generator a \<noteq> ''none''
        \<and> (\<exists>sgc. map_of synonym_generators (synonym_generator a) = Some sgc \<and> sgs = [sgc]))
   \<and> (task a \<noteq> ''classification'' \<longrightarrow> image_annotator a = ''owlv2'')
   \<and> instantiated wn
       = instantiated w0 @ pgc # sgs @ igc
           # (if task a = ''classification'' then [] else [OWLv2Annotator])
   \<and> 1 \<le> batch_size_annotation a
   \<and> files wn (path_join (save_dir a) ''generation_args.json'') = Some (ArgsJson a)
   \<and> files wn (path_join (save_dir a) ''prompts.json'') = Some (PromptsJson (prompts_of m a))
   \<and> files wn (path_join (save_dir a) ''synonyms.json'')
       = (case synonyms_of m a of
            None \<Rightarrow> files w0 (path_join (save_dir a) ''synonyms.json'')
          | Some d \<Rightarrow> Some (SynonymsJson d))
   \<and> (\<forall>n < length (images_of m a).
         files wn (image_paths_of m a ! n) = Some (ImageJpeg (images_of m a ! n)))"
proof -
  let ?sd = "save_dir a"
  let ?bd = "path_join ?sd ''bboxes_visualization''"
  from main_prefix_named[OF assms] obtain w7 pgc igc sgs where
    pgc: "map_of prompt_generators (prompt_generator a) = Some pgc"
    and igc: "map_of image_generators (image_generator a) = Some igc"
    and sgs: "synonym_generator a = ''none'' \<and> sgs = []
      \<or> synonym_generator a \<noteq> ''none''
        \<and> (\<exists>sgc. map_of synonym_generators (synonym_generator a) = Some sgc \<and> sgs = [sgc])"
    and bs: "1 \<le> batch_size_annotation a"
    and inst: "instantiated w7 = instantiated w0 @ pgc # sgs @ [igc]"
    and fa: "files w7 (path_join ?sd ''generation_args.json'') = Some (ArgsJson a)"
    and fp: "files w7 (path_join ?sd ''prompts.json'') = Some (PromptsJson (prompts_of m a))"
    and fs: "files w7 (path_join ?sd ''synonyms.json'')
       = (case synonyms_of m a of
            None \<Rightarrow> files w0 (path_join ?sd ''synonyms.json'')
          | Some d \<Rightarrow> Some (SynonymsJson d))"
    and fi: "\<forall>n < length (images_of m a).
         files w7 (image_paths_of m a ! n) = Some (ImageJpeg (images_of m a ! n))"
    and fin: "(if task a = ''classification''
       then classification_stage a (prompts_of m a) (image_paths_of m a) w7
       else detection_stage m a (synonyms_of m a) (prompts_of m a) ?bd (image_paths_of m a) w7)
      = Inr wn"
    by blast
  have last: "(task a \<noteq> ''classification'' \<longrightarrow> image_annotator a = ''owlv2'')
      \<and> instantiated wn = instantiated w7 @ (if task a = ''classification'' then [] else [OWLv2Annotator])
      \<and> (\<forall>q. q \<noteq> path_join ?sd ''annotations.json'' \<and> (\<forall>k. q \<noteq> path_join ?bd (bbox_name k))
             \<longrightarrow> files wn q = files w7 q)"
  proof (cases "task a = ''classification''")
    case True
    with fin have "classification_stage a (prompts_of m a) (image_paths_of m a) w7 = Inr wn"
      by simp
    from classification_stage_effect[OF this] True show ?thesis by simp
  next
    case False
    with fin have "detection_stage m a (synonyms_of m a) (prompts_of m a) ?bd
                     (image_paths_of m a) w7 = Inr wn" by simp
    from detection_stage_effect[OF this _ fi bs] False show ?thesis
      by (simp add: image_paths_of_def)
  qed
  have keep: "files wn q = files w7 q"
    if "q \<noteq> path_join ?sd ''annotations.json''" "\<forall>k. q \<noteq> path_join ?bd (bbox_name k)" for q
    using last that by blast
  have fa': "files wn (path_join ?sd ''generation_args.json'') = Some (ArgsJson a)"
    using keep[of "path_join ?sd ''generation_args.json''"] fa
      literal_paths_distinct(3)[of ?sd] bbox_path_not_literal(1)[of ?sd]
    by metis
  have fp': "files wn (path_join ?sd ''prompts.json'') = Some (PromptsJson (prompts_of m a))"
    using keep[of "path_join ?sd ''prompts.json''"] fp
      literal_paths_distinct(5)[of ?sd] bbox_path_not_literal(2)[of ?sd]
    by metis
  have fs': "files wn (path_join ?sd ''synonyms.json'') = files w7 (path_join ?sd ''synonyms.json'')"
    using keep[of "path_join ?sd ''synonyms.json''"]
      literal_paths_distinct(6)[of ?sd] bbox_path_not_literal(3)[of ?sd]
    by metis
  have fi': "\<forall>n < length (images_of m a).
         files wn (image_paths_of m a ! n) = Some (ImageJpeg (images_of m a ! n))"
  proof (intro allI impI)
    fix n assume n: "n < length (images_of m a)"
    let ?p = "path_join ?sd (image_name n)"
    have "files wn ?p = files w7 ?p"
      using keep[of ?p] image_path_not_literal(4)[of ?sd n] image_path_not_bbox[of ?sd n]
      by metis
    with fi n show "files wn (image_paths_of m a ! n) = Some (ImageJpeg (images_of m a ! n))"
      by (simp add: image_paths_of_nth)
  qed
  have inst': "instantiated wn = instantiated w0 @ pgc # sgs @ igc
           # (if task a = ''classification'' then [] else [OWLv2Annotator])"
    using last inst by simp
  have owl: "task a \<noteq> ''classification'' \<longrightarrow> image_annotator a = ''owlv2''"
    using last by blast
  show ?thesis
    apply (rule exI[of _ pgc], rule exI[of _ igc], rule exI[of _ sgs])
    using pgc igc sgs owl bs inst' fa' fp' fs'[unfolded fs] fi'
    by (intro conjI) assumption+
qed


lemma main_run_classification:
  assumes "main e m a w0 = Inr wn" and "task a = ''classification''"
  shows "\<exists>labels_list.
           map_res (clf_labels (class_names a)) (map fst (prompts_of m a)) = Inr labels_list
         \<and> files wn (path_join (save_dir a) ''annotations.json'')
             = Some (AnnotationsJson
                  (clf_annotations (image_paths_of m a) labels_list (class_names a)))"
proof -
  from main_prefix_named[OF assms(1)] assms(2) obtain w7 where
    "classification_stage a (prompts_of m a) (image_paths_of m a) w7 = Inr wn"
    by auto
  from classification_stage_effect[OF this] show ?thesis by blast
qed

lemma main_run_detection:
  fixes m :: "'img models" and a :: args
  defines "N \<equiv> length (images_of m a)"
  defines "boxes_list \<equiv> concat (map (\<lambda>t. fst (detections_of m a t))
                                 [0..<num_batches N (batch_size_annotation a)])"
  defines "labels_list \<equiv> map (\<lambda>n. image_labels
                                   (detections_of m a (n div nat (batch_size_annotation a)))
                                   (n mod nat (batch_size_annotation a))) [0..<N]"
  assumes "main e m a w0 = Inr wn" and "task a \<noteq> ''classification''"
  shows "files wn (path_join (save_dir a) ''annotations.json'')
           = Some (AnnotationsJson
                (det_annotations (image_paths_of m a) boxes_list labels_list (class_names a)))
       \<and> N \<le> length boxes_list
       \<and> (\<forall>n < N. \<exists>fig.
             files wn (path_join (path_join (save_dir a) ''bboxes_visualization'')
                         (bbox_name (int n))) = Some (FigureJpeg fig)
           \<and> fig_image fig = images_of m a ! n
           \<and> fig_patches fig
               = map rect_of (paired (detections_of m a (n div nat (batch_size_annotation a)))
                                     (n mod nat (batch_size_annotation a))))"
proof -
  let ?bs = "batch_size_annotation a"
  let ?imgs = "images_of m a"
  let ?nb = "num_batches N ?bs"
  from main_prefix_named[OF assms(4)] assms(5) obtain w7 where
    bs: "1 \<le> ?bs"
    and fi: "\<forall>n < length ?imgs. files w7 (image_paths_of m a ! n) = Some (ImageJpeg (?imgs ! n))"
    and fin: "detection_stage m a (synonyms_of m a) (prompts_of m a)
                (path_join (save_dir a) ''bboxes_visualization'') (image_paths_of m a) w7 = Inr wn"
    by auto
  have D: "detect m (new_annotator OWLv2Annotator a) a (synonyms_of m a) (image_batch ?imgs ?bs t)
           = detections_of m a t" for t
    by (simp add: detections_of_def)
  note E = detection_stage_effect[OF fin image_paths_of_def fi bs, unfolded D, folded N_def]
  have labels: "concat (map (\<lambda>t. map (image_labels (detections_of m a t))
                                  [0..<length (image_batch ?imgs ?bs t)]) [0..<?nb])
                = labels_list"
    unfolding labels_list_def N_def
    by (rule concat_batches[OF bs, where g = "\<lambda>t. image_labels (detections_of m a t)"])
  from E have annf: "files wn (path_join (save_dir a) ''annotations.json'')
           = Some (AnnotationsJson
                (det_annotations (image_paths_of m a) boxes_list labels_list (class_names a)))"
    unfolding labels boxes_list_def by blast
  from E have bnd: "\<forall>t < ?nb. image_batch ?imgs ?bs t \<noteq> []
            \<longrightarrow> length (image_batch ?imgs ?bs t) \<le> length (fst (detections_of m a t))"
    by blast
  have "N = length (concat (map (image_batch ?imgs ?bs) [0..<?nb]))"
    by (simp only: N_def concat_image_batches[OF bs])
  also have "\<dots> = sum_list (map (\<lambda>t. length (image_batch ?imgs ?bs t)) [0..<?nb])"
    by (simp add: length_concat comp_def)
  also have "\<dots> \<le> sum_list (map (\<lambda>t. length (fst (detections_of m a t))) [0..<?nb])"
  proof (rule sum_list_mono)
    fix t assume "t \<in> set [0..<?nb]"
    then have "t < ?nb" by simp
    with bnd show "length (image_batch ?imgs ?bs t) \<le> length (fst (detections_of m a t))"
      by (cases "image_batch ?imgs ?bs t = []") auto
  qed
  also have "\<dots> = length boxes_list"
    by (simp add: boxes_list_def length_concat comp_def)
  finally have len: "N \<le> length boxes_list" .
  from E have figs: "\<forall>n < N. \<exists>fig.
             files wn (path_join (path_join (save_dir a) ''bboxes_visualization'')
                         (bbox_name (int n))) = Some (FigureJpeg fig)
           \<and> fig_image fig = ?imgs ! n
           \<and> fig_patches fig = map rect_of (paired (detections_of m a (n div nat ?bs)) (n mod nat ?bs))"
    by blast
  from annf len figs show ?thesis by blast
qed

subsection \<open>Which wrappers a run instantiates\<close>

lemma prompt_generators_table:
  "map_of prompt_generators k = Some c \<Longrightarrow>
   k = ''simple'' \<and> c = SimplePromptGenerator
   \<or> k = ''lm'' \<and> c = LMPromptGenerator
   \<or> k = ''tiny'' \<and> c = TinyLlamaLMPromptGenerator"
  by (auto simp: prompt_generators_def split: if_splits)

lemma synonym_generators_table:
  "map_of synonym_generators k = Some c \<Longrightarrow>
   k = ''llm'' \<and> c = LMSynonymGenerator \<or> k = ''wordnet'' \<and> c = WordNetSynonymGenerator"
  by (auto simp: synonym_generators_def split: if_splits)

lemma image_generators_table:
  "map_of image_generators k = Some c \<Longrightarrow>
   k = ''sdxl'' \<and> c = StableDiffusionImageGenerator
   \<or> k = ''sdxl-turbo'' \<and> c = StableDiffusionTurboImageGenerator
   \<or> k = ''sdxl-lightning'' \<and> c = StableDiffusionLightningImageGenerator"
  by (auto simp: image_generators_def split: if_splits)

lemma demo_detection_run: "\<exists>wn. main demo_env demo_models detection_args empty_world = Inr wn"
proof -
  have "\<not> isl (main demo_env demo_models detection_args empty_world)" by code_simp
  then show ?thesis by (cases "main demo_env demo_models detection_args empty_world") auto
qed

lemma demo_classification_run:
  "\<exists>wn. main demo_env demo_models classification_args empty_world = Inr wn"
proof -
  have "\<not> isl (main demo_env demo_models classification_args empty_world)" by code_simp
  then show ?thesis by (cases "main demo_env demo_models classification_args empty_world") auto
qed

text \<open>
  Claim C4, as amended. In a run that returns, the classes instantiated are, in order:
  the prompt generator selected by \<^verbatim>\<open>prompt_generator\<close> (simple, lm, tiny); the synonym
  generator selected by \<^verbatim>\<open>synonym_generator\<close> (llm, wordnet) and none for \<^verbatim>\<open>none\<close>; the
  image generator selected by \<^verbatim>\<open>image_generator\<close> (sdxl, sdxl-turbo, sdxl-lightning); and
  the OWLv2 annotator for \<^verbatim>\<open>image_annotator\<close> owlv2 unless the task is classification,
  for which no annotator is instantiated.
\<close>

theorem selected_wrappers_instantiated:
  assumes "main e m a w0 = Inr wn"
  shows "\<exists>pgc sgs igc ans.
       instantiated wn = instantiated w0 @ pgc # sgs @ igc # ans
     \<and> (prompt_generator a = ''simple'' \<and> pgc = SimplePromptGenerator
        \<or> prompt_generator a = ''lm'' \<and> pgc = LMPromptGenerator
        \<or> prompt_generator a = ''tiny'' \<and> pgc = TinyLlamaLMPromptGenerator)
     \<and> (synonym_generator a = ''none'' \<and> sgs = []
        \<or> synonym_generator a = ''llm'' \<and> sgs = [LMSynonymGenerator]
        \<or> synonym_generator a = ''wordnet'' \<and> sgs = [WordNetSynonymGenerator])
     \<and> (image_generator a = ''sdxl'' \<and> igc = StableDiffusionImageGenerator
        \<or> image_generator a = ''sdxl-turbo'' \<and> igc = StableDiffusionTurboImageGenerator
        \<or> image_generator a = ''sdxl-lightning'' \<and> igc = StableDiffusionLightningImageGenerator)
     \<and> (task a = ''classification'' \<and> ans = []
        \<or> task a \<noteq> ''classification'' \<and> image_annotator a = ''owlv2'' \<and> ans = [OWLv2Annotator])"
proof -
  from main_run_common[OF assms] obtain pgc igc sgs where
    pgc: "map_of prompt_generators (prompt_generator a) = Some pgc"
    and igc: "map_of image_generators (image_generator a) = Some igc"
    and sgs: "synonym_generator a = ''none'' \<and> sgs = []
      \<or> synonym_generator a \<noteq> ''none''
        \<and> (\<exists>sgc. map_of synonym_generators (synonym_generator a) = Some sgc \<and> sgs = [sgc])"
    and owl: "task a \<noteq> ''classification'' \<longrightarrow> image_annotator a = ''owlv2''"
    and inst: "instantiated wn = instantiated w0 @ pgc # sgs @ igc
           # (if task a = ''classification'' then [] else [OWLv2Annotator])"
    by blast
  let ?ans = "if task a = ''classification'' then [] else [OWLv2Annotator]"
  have s: "synonym_generator a = ''none'' \<and> sgs = []
        \<or> synonym_generator a = ''llm'' \<and> sgs = [LMSynonymGenerator]
        \<or> synonym_generator a = ''wordnet'' \<and> sgs = [WordNetSynonymGenerator]"
    using sgs by (auto dest: synonym_generators_table)
  have t: "task a = ''classification'' \<and> ?ans = []
        \<or> task a \<noteq> ''classification'' \<and> image_annotator a = ''owlv2'' \<and> ?ans = [OWLv2Annotator]"
    using owl by simp
  show ?thesis
    apply (rule exI[of _ pgc], rule exI[of _ sgs], rule exI[of _ igc], rule exI[of _ ?ans])
    using inst prompt_generators_table[OF pgc] s image_generators_table[OF igc] t
    by (intro conjI) assumption+
qed

theorem selected_wrappers_instantiated_witness:
  "\<exists>wn. main demo_env demo_models detection_args empty_world = Inr wn
     \<and> instantiated wn = [SimplePromptGenerator, WordNetSynonymGenerator,
                           StableDiffusionTurboImageGenerator, OWLv2Annotator]"
proof -
  from demo_detection_run obtain wn
    where run: "main demo_env demo_models detection_args empty_world = Inr wn" by blast
  have a: "prompt_generator detection_args = ''simple''"
    "synonym_generator detection_args = ''wordnet''"
    "image_generator detection_args = ''sdxl-turbo''"
    "task detection_args = ''detection''"
    by (simp_all add: detection_args_def default_args_def)
  from selected_wrappers_instantiated[OF run]
  have "instantiated wn = [SimplePromptGenerator, WordNetSynonymGenerator,
                           StableDiffusionTurboImageGenerator, OWLv2Annotator]"
    unfolding a by (auto simp: empty_world_def)
  with run show ?thesis by blast
qed

text \<open>
  Claim C4 as stated has \<^verbatim>\<open>main\<close> instantiate the annotator class selected by
  \<^verbatim>\<open>image_annotator\<close>. A classification run with the option at owlv2 returns having
  instantiated the prompt generator and the image generator only.
\<close>

theorem annotator_not_instantiated_counterexample:
  "image_annotator classification_args = ''owlv2''
   \<and> map_sum id instantiated (main demo_env demo_models classification_args empty_world)
     = Inr [SimplePromptGenerator, StableDiffusionTurboImageGenerator]"
proof -
  have "image_annotator classification_args = ''owlv2''"
    by (simp add: classification_args_def default_args_def)
  moreover have "map_sum id instantiated (main demo_env demo_models classification_args empty_world)
     = Inr [SimplePromptGenerator, StableDiffusionTurboImageGenerator]"
    by code_simp
  ultimately show ?thesis by blast
qed

subsection \<open>The synonym stage\<close>

text \<open>
  Claim C3, as amended. In a run that returns with \<^verbatim>\<open>synonym_generator\<close> other than
  \<^verbatim>\<open>none\<close>, the selected synonym generator (llm or wordnet) is instantiated and the
  synonyms it generates for \<^verbatim>\<open>class_names\<close> are in \<^verbatim>\<open>synonyms.json\<close>. With \<^verbatim>\<open>none\<close>
  (the default) there is no synonym dictionary, the run instantiates no synonym generator
  and leaves \<^verbatim>\<open>synonyms.json\<close> as it found it.
\<close>

theorem synonyms_saved_when_selected:
  assumes "main e m a w0 = Inr wn"
  shows "(synonym_generator a = ''none'' \<longrightarrow>
            synonyms_of m a = None
          \<and> files wn (path_join (save_dir a) ''synonyms.json'')
              = files w0 (path_join (save_dir a) ''synonyms.json'')
          \<and> (\<exists>new. instantiated wn = instantiated w0 @ new
                \<and> LMSynonymGenerator \<notin> set new \<and> WordNetSynonymGenerator \<notin> set new))
       \<and> (synonym_generator a \<noteq> ''none'' \<longrightarrow>
            (\<exists>c. (synonym_generator a = ''llm'' \<and> c = LMSynonymGenerator
                  \<or> synonym_generator a = ''wordnet'' \<and> c = WordNetSynonymGenerator)
                \<and> c \<in> set (instantiated wn)
                \<and> files wn (path_join (save_dir a) ''synonyms.json'')
                    = Some (SynonymsJson (generate_synonyms_for_list m
                              (new_synonym_generator c a) (class_names a)))))"
proof -
  from main_run_common[OF assms] obtain pgc igc sgs where
    pgc: "map_of prompt_generators (prompt_generator a) = Some pgc"
    and igc: "map_of image_generators (image_generator a) = Some igc"
    and sgs: "synonym_generator a = ''none'' \<and> sgs = []
      \<or> synonym_generator a \<noteq> ''none''
        \<and> (\<exists>sgc. map_of synonym_generators (synonym_generator a) = Some sgc \<and> sgs = [sgc])"
    and inst: "instantiated wn = instantiated w0 @ pgc # sgs @ igc
           # (if task a = ''classification'' then [] else [OWLv2Annotator])"
    and fs: "files wn (path_join (save_dir a) ''synonyms.json'')
       = (case synonyms_of m a of
            None \<Rightarrow> files w0 (path_join (save_dir a) ''synonyms.json'')
          | Some d \<Rightarrow> Some (SynonymsJson d))"
    by blast
  show ?thesis
  proof (intro conjI impI)
    assume none: "synonym_generator a = ''none''"
    then show "synonyms_of m a = None" by (simp add: synonyms_of_def)
    with fs show "files wn (path_join (save_dir a) ''synonyms.json'')
              = files w0 (path_join (save_dir a) ''synonyms.json'')" by simp
    from none sgs have "sgs = []" by simp
    with inst prompt_generators_table[OF pgc] image_generators_table[OF igc]
    show "\<exists>new. instantiated wn = instantiated w0 @ new
                \<and> LMSynonymGenerator \<notin> set new \<and> WordNetSynonymGenerator \<notin> set new"
      by (intro exI[of _ "pgc # igc # (if task a = ''classification'' then [] else [OWLv2Annotator])"])
         auto
  next
    assume some: "synonym_generator a \<noteq> ''none''"
    with sgs obtain sgc where
      c: "map_of synonym_generators (synonym_generator a) = Some sgc" and s: "sgs = [sgc]"
      by blast
    have "synonyms_of m a
          = Some (generate_synonyms_for_list m (new_synonym_generator sgc a) (class_names a))"
      using some c by (simp add: synonyms_of_def)
    with fs have "files wn (path_join (save_dir a) ''synonyms.json'')
                    = Some (SynonymsJson (generate_synonyms_for_list m
                              (new_synonym_generator sgc a) (class_names a)))" by simp
    moreover have "sgc \<in> set (instantiated wn)" using inst s by simp
    ultimately show "\<exists>c. (synonym_generator a = ''llm'' \<and> c = LMSynonymGenerator
                  \<or> synonym_generator a = ''wordnet'' \<and> c = WordNetSynonymGenerator)
                \<and> c \<in> set (instantiated wn)
                \<and> files wn (path_join (save_dir a) ''synonyms.json'')
                    = Some (SynonymsJson (generate_synonyms_for_list m
                              (new_synonym_generator c a) (class_names a)))"
      using synonym_generators_table[OF c] by blast
  qed
qed

theorem synonyms_saved_when_selected_witness:
  "\<exists>wn. main demo_env demo_models detection_args empty_world = Inr wn
     \<and> WordNetSynonymGenerator \<in> set (instantiated wn)
     \<and> files wn ''generated_dataset/synonyms.json''
         = Some (SynonymsJson [(PStr ''bear'', [PStr ''bear'']),
                               (PStr ''bicycle'', [PStr ''bicycle'']),
                               (PStr ''bird'', [PStr ''bird'']),
                               (PStr ''person'', [PStr ''person''])])"
proof -
  from demo_detection_run obtain wn
    where run: "main demo_env demo_models detection_args empty_world = Inr wn" by blast
  have a: "synonym_generator detection_args = ''wordnet''"
    by (simp add: detection_args_def default_args_def)
  have p: "path_join (save_dir detection_args) ''synonyms.json'' = ''generated_dataset/synonyms.json''"
    by (simp add: detection_args_def default_args_def path_join_def)
  have v: "generate_synonyms_for_list demo_models
             (new_synonym_generator WordNetSynonymGenerator detection_args)
             (class_names detection_args)
           = [(PStr ''bear'', [PStr ''bear'']), (PStr ''bicycle'', [PStr ''bicycle'']),
              (PStr ''bird'', [PStr ''bird'']), (PStr ''person'', [PStr ''person''])]"
    by (simp add: demo_models_def detection_args_def default_args_def)
  from synonyms_saved_when_selected[OF run]
  have "WordNetSynonymGenerator \<in> set (instantiated wn)
      \<and> files wn ''generated_dataset/synonyms.json''
         = Some (SynonymsJson [(PStr ''bear'', [PStr ''bear'']),
                               (PStr ''bicycle'', [PStr ''bicycle'']),
                               (PStr ''bird'', [PStr ''bird'']),
                               (PStr ''person'', [PStr ''person''])])"
    unfolding a p by (auto simp: v)
  with run show ?thesis by blast
qed

text \<open>
  Claim C3 as stated has every run generate and save synonyms. The run with the default
  arguments returns without a synonym generator among the classes it instantiated and
  without a file \<^verbatim>\<open>synonyms.json\<close>.
\<close>

theorem synonym_stage_skipped_counterexample:
  "synonym_generator default_args = ''none''
   \<and> map_sum id instantiated (main demo_env demo_models default_args empty_world)
     = Inr [SimplePromptGenerator, StableDiffusionTurboImageGenerator, OWLv2Annotator]
   \<and> map_sum id (file_at ''generated_dataset/synonyms.json'')
       (main demo_env demo_models default_args empty_world) = Inr None"
proof -
  have "synonym_generator default_args = ''none''" by (simp add: default_args_def)
  moreover have "map_sum id instantiated (main demo_env demo_models default_args empty_world)
     = Inr [SimplePromptGenerator, StableDiffusionTurboImageGenerator, OWLv2Annotator]"
    by code_simp
  moreover have "map_sum id (file_at ''generated_dataset/synonyms.json'')
       (main demo_env demo_models default_args empty_world) = Inr None"
    by code_simp
  ultimately show ?thesis by blast
qed

end
